theory Spec2Isabelle
  imports Main
begin

section \<open>Signals, clauses and their evaluation (Clause.ts)\<close>

text \<open>
  Modelled from the spec: the declaration of the type \<^verbatim>\<open>Signal\<close> (types.ts) is not among the
  sources. The spec has it as an interned handle for a name, two signals being equal if and
  only if their names are; the code makes every signal with \<^verbatim>\<open>Symbol.for(name)\<close>, which gives
  the same symbol exactly for the same string. A signal is modelled by its name.
  Strings are lists of code units below 256.
\<close>

type_synonym signal = string

text \<open>
  The exceptions the code can raise. \<^verbatim>\<open>RuleParsingException\<close> is the class of Automaton.ts and
  carries its message; \<^verbatim>\<open>TypeError\<close> is what the JavaScript runtime raises when a property of
  \<^verbatim>\<open>undefined\<close> or \<^verbatim>\<open>null\<close> is read, \<^verbatim>\<open>RangeError\<close> (``Invalid array length'') what it
  raises when an array can grow no more.
\<close>

datatype error = RuleParsingException string | TypeError | RangeError

text \<open>
  The class hierarchy of Clause.ts as one datatype: the base class \<^verbatim>\<open>Clause\<close> (always true) and
  its four subclasses. The constructors hold the value of the fields of the object;
  the flattening that \<^verbatim>\<open>new Conjunction(...)\<close> and \<^verbatim>\<open>new Disjunction(...)\<close> do is in
  \<open>new_Conjunction\<close> and \<open>new_Disjunction\<close> below. \<open>Literal signal position timeStep\<close>.
  (\<^verbatim>\<open>Negation\<close>'s test for an undefined subclause is for an argument its constructor's type
  excludes and no caller passes; it is not modelled.)
\<close>

datatype clause =
    Clause
  | Negation clause
  | Conjunction "clause list"
  | Disjunction "clause list"
  | Literal signal int int

text \<open>
  Modelled from the spec: the declaration of the type \<^verbatim>\<open>Neighborhood\<close> (types.ts) is not among
  the sources. The spec has it as a mapping from a relative offset to the signal set of a
  cell; the code builds it as an object indexed by offsets (\<^verbatim>\<open>neighborhood[i] = ...\<close>). An
  offset that was never assigned reads as \<^verbatim>\<open>undefined\<close>, here \<open>None\<close>.
\<close>

type_synonym neighborhood = "int \<rightharpoonup> signal set"

text \<open>
  \<^verbatim>\<open>eval\<close>. \<open>Literal\<close>: \<^verbatim>\<open>signals[this.position].has(this.signal)\<close> raises a TypeError when
  \<^verbatim>\<open>signals[this.position]\<close> is undefined. \<open>Conjunction\<close> uses \<^verbatim>\<open>every\<close>, which stops at
  the first subclause that is false, \<open>Disjunction\<close> uses \<^verbatim>\<open>some\<close>, which stops at the first
  that is true; an exception raised by a subclause that is reached leaves the whole evaluation.
\<close>

fun eval :: "clause \<Rightarrow> neighborhood \<Rightarrow> error + bool"
  and every :: "clause list \<Rightarrow> neighborhood \<Rightarrow> error + bool"
  and some :: "clause list \<Rightarrow> neighborhood \<Rightarrow> error + bool"
where
  "eval Clause signals = Inr True"
| "eval (Negation subclause) signals =
     (case eval subclause signals of Inl e \<Rightarrow> Inl e | Inr b \<Rightarrow> Inr (\<not> b))"
| "eval (Conjunction subclauses) signals = every subclauses signals"
| "eval (Disjunction subclauses) signals = some subclauses signals"
| "eval (Literal s position timeStep) signals =
     (case signals position of None \<Rightarrow> Inl TypeError | Some cell \<Rightarrow> Inr (s \<in> cell))"
| "every [] signals = Inr True"
| "every (subclause # rest) signals =
     (case eval subclause signals of
        Inl e \<Rightarrow> Inl e
      | Inr b \<Rightarrow> if b then every rest signals else Inr False)"
| "some [] signals = Inr False"
| "some (subclause # rest) signals =
     (case eval subclause signals of
        Inl e \<Rightarrow> Inl e
      | Inr b \<Rightarrow> if b then Inr True else some rest signals)"

subsection \<open>The constructors of Conjunction and Disjunction\<close>

text \<open>
  \<^verbatim>\<open>new Conjunction(subclauses)\<close>: the subclauses of an argument that is a Conjunction are
  pushed in its place, any other argument is pushed as it is.
\<close>

fun new_Conjunction_loop :: "clause list \<Rightarrow> clause list \<Rightarrow> clause list" where
  "new_Conjunction_loop this_subclauses [] = this_subclauses"
| "new_Conjunction_loop this_subclauses (Conjunction cs # rest) =
     new_Conjunction_loop (this_subclauses @ cs) rest"
| "new_Conjunction_loop this_subclauses (subclause # rest) =
     new_Conjunction_loop (this_subclauses @ [subclause]) rest"

definition new_Conjunction :: "clause list \<Rightarrow> clause" where
  "new_Conjunction subclauses = Conjunction (new_Conjunction_loop [] subclauses)"

text \<open>
  \<^verbatim>\<open>new Disjunction(subclauses)\<close>. The loop differs from the one of Conjunction in its
  \<^verbatim>\<open>else\<close> branch, which is \<^verbatim>\<open>this.subclauses = subclauses\<close>: from the first argument that
  is not a Disjunction on, \<^verbatim>\<open>this.subclauses\<close> IS the argument array, the array the
  \<^verbatim>\<open>for ... of\<close> loop is iterating over. A later \<^verbatim>\<open>push\<close> then appends to that array, and
  the array iterator, which compares its index with the current length at every step,
  goes on over the appended elements.

  The state of the loop: \<open>own\<close> is \<open>Some xs\<close> while \<^verbatim>\<open>this.subclauses\<close> is still the array
  the constructor created (holding \<open>xs\<close>), and \<open>None\<close> once it is the argument array;
  \<open>visited\<close> are the elements of the argument array the iterator has passed, \<open>todo\<close>
  the ones it has not, so that the argument array is \<open>visited @ todo\<close>.
\<close>

function new_Disjunction_loop ::
  "clause list option \<Rightarrow> clause list \<Rightarrow> clause list \<Rightarrow> clause list" where
  "new_Disjunction_loop own visited [] = (case own of Some xs \<Rightarrow> xs | None \<Rightarrow> visited)"
| "new_Disjunction_loop own visited (subclause # todo) =
     (case subclause of
        Disjunction ds \<Rightarrow>
          (case own of
             Some xs \<Rightarrow> new_Disjunction_loop (Some (xs @ ds)) (visited @ [subclause]) todo
           | None \<Rightarrow> new_Disjunction_loop None (visited @ [subclause]) (todo @ ds))
      | _ \<Rightarrow> new_Disjunction_loop None (visited @ [subclause]) todo)"
  by pat_completeness auto
termination
  by (relation "measure (\<lambda>(own, visited, todo). size_list size todo)") auto

definition new_Disjunction :: "clause list \<Rightarrow> clause" where
  "new_Disjunction subclauses = Disjunction (new_Disjunction_loop (Some []) [] subclauses)"

section \<open>Configurations (Configuration.ts)\<close>

record configuration =
  cells :: "signal set list"

text \<open>\<^verbatim>\<open>new Configuration(nbCells)\<close>: \<open>nbCells\<close> new empty sets.\<close>

definition Configuration :: "nat \<Rightarrow> configuration" where
  "Configuration nbCells = \<lparr>cells = replicate nbCells {}\<rparr>"

definition getSize :: "configuration \<Rightarrow> nat" where
  "getSize this = length (cells this)"

text \<open>
  \<^verbatim>\<open>getNeighborhood\<close> does not copy a cell: \<^verbatim>\<open>neighborhood[i] = this.cells[c + i]\<close> stores
  the Set object of the cell itself, so a signal added to that cell later is seen
  through the neighbourhood built before. The cells of a configuration are distinct Set
  objects (the constructor creates one per cell), so the Set object of a cell is named by
  the index of the cell. A reference held by a neighbourhood is either a set created by
  \<^verbatim>\<open>new Set()\<close> for an offset off the configuration, which nothing else refers to and which
  stays empty, or the set of a cell.
\<close>

datatype setref = NewSet | CellSet nat

type_synonym neighborhood_refs = "int \<rightharpoonup> setref"

definition getNeighborhood :: "configuration \<Rightarrow> nat \<Rightarrow> int \<Rightarrow> int \<Rightarrow> neighborhood_refs" where
  "getNeighborhood this c minNeighbor maxNeighbor =
     foldl (\<lambda>neighborhood i.
              if int c + i < 0 then neighborhood(i \<mapsto> NewSet)
              else if int c + i \<ge> int (length (cells this)) then neighborhood(i \<mapsto> NewSet)
              else neighborhood(i \<mapsto> CellSet (nat (int c + i))))
           Map.empty [minNeighbor..maxNeighbor]"

text \<open>
  What a neighbourhood holds when it is read: each reference with the content its Set
  object has at that moment in the configuration it was built from. This is the
  \<^verbatim>\<open>Neighborhood\<close> that \<^verbatim>\<open>eval\<close> receives. (A cell index beyond the configuration is never
  built by \<open>getNeighborhood\<close>; it reads as undefined.)
\<close>

definition contents :: "configuration \<Rightarrow> neighborhood_refs \<Rightarrow> neighborhood" where
  "contents config refs =
     (\<lambda>i. case refs i of
             None \<Rightarrow> None
           | Some NewSet \<Rightarrow> Some {}
           | Some (CellSet j) \<Rightarrow> if j < length (cells config) then Some (cells config ! j) else None)"

section \<open>Rules and the automaton (Automaton.ts)\<close>

record ruleOutput =
  neighbor :: int
  signal :: signal
  futureStep :: int

record rule =
  condition :: clause
  outputs :: "ruleOutput list"

record automaton =
  rules :: "rule list"
  minNeighbor :: int
  maxNeighbor :: int
  maxFutureDepth :: int

subsection \<open>makeDiagram\<close>

text \<open>
  The diagram is the array of configurations; the configurations and their sets are
  changed in place, so every step takes the diagram and returns it updated.

  The body of the \<^verbatim>\<open>forEach\<close> callback for one output. The test is the one of the source:
  the target time is compared with the length of the diagram only. When the test passes
  with a negative target time, \<^verbatim>\<open>diagram[t + output.futureStep]\<close> is undefined and reading
  its \<^verbatim>\<open>cells\<close> raises a TypeError; so does \<^verbatim>\<open>.add\<close> on a cell the target configuration does
  not have.
\<close>

type_synonym diagram = "configuration list"

definition applyOutput :: "nat \<Rightarrow> nat \<Rightarrow> nat \<Rightarrow> diagram \<Rightarrow> ruleOutput \<Rightarrow> error + diagram" where
  "applyOutput nbCells t c diagram output =
     (let targetCell = int c + neighbor output in
      if int t + futureStep output < int (length diagram) \<and> 0 \<le> targetCell \<and> targetCell < int nbCells
      then
        if int t + futureStep output < 0 then Inl TypeError
        else
          let target = diagram ! nat (int t + futureStep output) in
          if nat targetCell < length (cells target)
          then Inr (diagram[nat (int t + futureStep output) :=
                  target\<lparr>cells := (cells target)[nat targetCell :=
                                      insert (signal output) (cells target ! nat targetCell)]\<rparr>])
          else Inl TypeError
      else Inr diagram)"

text \<open>\<^verbatim>\<open>rule.outputs.forEach(...)\<close>: the outputs in order; an exception ends the loop.\<close>

fun forEach_output :: "nat \<Rightarrow> nat \<Rightarrow> nat \<Rightarrow> ruleOutput list \<Rightarrow> diagram \<Rightarrow> error + diagram" where
  "forEach_output nbCells t c [] diagram = Inr diagram"
| "forEach_output nbCells t c (output # rest) diagram =
     (case applyOutput nbCells t c diagram output of
        Inl e \<Rightarrow> Inl e
      | Inr diagram' \<Rightarrow> forEach_output nbCells t c rest diagram')"

text \<open>
  \<^verbatim>\<open>for (const rule of this.rules)\<close>, for one cell. \<open>neighborhood\<close> was built once, before
  the loop; each condition reads it with the content the sets of \<^verbatim>\<open>diagram[t]\<close> have by then.
\<close>

fun for_rules :: "nat \<Rightarrow> nat \<Rightarrow> nat \<Rightarrow> neighborhood_refs \<Rightarrow> rule list \<Rightarrow> diagram \<Rightarrow> error + diagram" where
  "for_rules nbCells t c neighborhood [] diagram = Inr diagram"
| "for_rules nbCells t c neighborhood (rule # rest) diagram =
     (case eval (condition rule) (contents (diagram ! t) neighborhood) of
        Inl e \<Rightarrow> Inl e
      | Inr fires \<Rightarrow>
          if fires then
            (case forEach_output nbCells t c (outputs rule) diagram of
               Inl e \<Rightarrow> Inl e
             | Inr diagram' \<Rightarrow> for_rules nbCells t c neighborhood rest diagram')
          else for_rules nbCells t c neighborhood rest diagram)"

text \<open>The body of the loop over the cells: the neighbourhood of \<open>c\<close>, then the rules.\<close>

definition cell_step :: "automaton \<Rightarrow> nat \<Rightarrow> nat \<Rightarrow> nat \<Rightarrow> diagram \<Rightarrow> error + diagram" where
  "cell_step this nbCells t c diagram =
     (let config = diagram ! t;
          neighborhood = getNeighborhood config c (minNeighbor this) (maxNeighbor this)
      in for_rules nbCells t c neighborhood (rules this) diagram)"

text \<open>\<^verbatim>\<open>for (let c = 0; c < nbCells; c++)\<close>, given the values \<open>c\<close> still has to take.\<close>

fun for_cells :: "automaton \<Rightarrow> nat \<Rightarrow> nat \<Rightarrow> nat list \<Rightarrow> diagram \<Rightarrow> error + diagram" where
  "for_cells this nbCells t [] diagram = Inr diagram"
| "for_cells this nbCells t (c # rest) diagram =
     (case cell_step this nbCells t c diagram of
        Inl e \<Rightarrow> Inl e
      | Inr diagram' \<Rightarrow> for_cells this nbCells t rest diagram')"

text \<open>\<^verbatim>\<open>for (let t = 0; t < nbSteps; t++)\<close>, given the values \<open>t\<close> still has to take.\<close>

fun for_steps :: "automaton \<Rightarrow> nat \<Rightarrow> nat list \<Rightarrow> diagram \<Rightarrow> error + diagram" where
  "for_steps this nbCells [] diagram = Inr diagram"
| "for_steps this nbCells (t # rest) diagram =
     (case for_cells this nbCells t [0..<nbCells] diagram of
        Inl e \<Rightarrow> Inl e
      | Inr diagram' \<Rightarrow> for_steps this nbCells rest diagram')"

text \<open>
  \<^verbatim>\<open>makeDiagram\<close>. \<open>nbSteps\<close> is a natural number (the spec's \<open>nbSteps \<ge> 0\<close>). The result
  is the diagram as it is when the method returns, or the exception that left it; the
  configuration at index 0 is the object the caller passed, with the content it has then.
\<close>

definition makeDiagram :: "automaton \<Rightarrow> configuration \<Rightarrow> nat \<Rightarrow> error + diagram" where
  "makeDiagram this initialConfiguration nbSteps =
     (let nbCells = getSize initialConfiguration;
          diagram = initialConfiguration # replicate nbSteps (Configuration nbCells)
      in for_steps this nbCells [0..<nbSteps] diagram)"

subsection \<open>makeDiagram on a store of Set objects\<close>

text \<open>
  The definitions above name the Set object of a cell by the index of the cell, which
  supposes that the cells of the configuration passed to \<^verbatim>\<open>makeDiagram\<close> are distinct
  objects. The field \<^verbatim>\<open>cells\<close> is public and nothing in \<^verbatim>\<open>makeDiagram\<close> tests it. The
  definitions of this subsection follow the same code without that supposition: a Set
  object is an address in a store, the store holds the signals of every Set object, and
  the \<^verbatim>\<open>cells\<close> array of a Configuration is a list of addresses, in which an address may
  occur twice. \<^verbatim>\<open>new Set()\<close> takes the next address, with no signal in it.
\<close>

type_synonym store = "signal set list"

definition new_Set :: "store \<Rightarrow> store \<times> nat" where
  "new_Set store = (store @ [{}], length store)"

text \<open>
  \<^verbatim>\<open>Array(nbCells).fill(0).map(() => new Set())\<close>: one new Set per cell, in order.
  \<open>cells_so_far\<close> are the cells already made.
\<close>

fun new_cells :: "nat \<Rightarrow> nat list \<Rightarrow> store \<Rightarrow> store \<times> nat list" where
  "new_cells 0 cells_so_far store = (store, cells_so_far)"
| "new_cells (Suc n) cells_so_far store =
     (case new_Set store of (store', a) \<Rightarrow> new_cells n (cells_so_far @ [a]) store')"

definition Configuration_store :: "nat \<Rightarrow> store \<Rightarrow> store \<times> nat list" where
  "Configuration_store nbCells store = new_cells nbCells [] store"

text \<open>
  \<^verbatim>\<open>getNeighborhood\<close>: the body of its loop for one offset \<open>i\<close>, on the store and the
  neighbourhood built so far, then the loop. The neighbourhood holds addresses: the one of
  a new Set for an offset off the configuration, the one of the cell otherwise.
\<close>

type_synonym neighborhood_store = "int \<rightharpoonup> nat"

definition neighborhood_entry ::
  "nat list \<Rightarrow> nat \<Rightarrow> store \<times> neighborhood_store \<Rightarrow> int \<Rightarrow> store \<times> neighborhood_store" where
  "neighborhood_entry this_cells c state i =
     (case state of
        (store, neighborhood) \<Rightarrow>
          if int c + i < 0 then
            (case new_Set store of (store', a) \<Rightarrow> (store', neighborhood(i \<mapsto> a)))
          else if int c + i \<ge> int (length this_cells) then
            (case new_Set store of (store', a) \<Rightarrow> (store', neighborhood(i \<mapsto> a)))
          else (store, neighborhood(i \<mapsto> this_cells ! nat (int c + i))))"

definition getNeighborhood_store ::
  "nat list \<Rightarrow> nat \<Rightarrow> int \<Rightarrow> int \<Rightarrow> store \<Rightarrow> store \<times> neighborhood_store" where
  "getNeighborhood_store this_cells c lo hi store =
     foldl (neighborhood_entry this_cells c) (store, Map.empty) [lo..hi]"

text \<open>
  What \<^verbatim>\<open>eval\<close> reads through a neighbourhood: the signals the store holds at each address
  at that moment. (An address the store does not hold names no object; none is ever built.)
\<close>

definition contents_store :: "store \<Rightarrow> neighborhood_store \<Rightarrow> neighborhood" where
  "contents_store store refs =
     (\<lambda>i. case refs i of
             None \<Rightarrow> None
           | Some a \<Rightarrow> if a < length store then Some (store ! a) else None)"

text \<open>
  The diagram is the list of the \<^verbatim>\<open>cells\<close> arrays of its configurations; it does not change
  once the configurations are pushed, only the store does. The functions are the ones of
  the subsection above, with \<^verbatim>\<open>.add(output.signal)\<close> on the Set object at the address that
  \<^verbatim>\<open>diagram[t + output.futureStep].cells[targetCell]\<close> holds.
\<close>

type_synonym diagram_store = "nat list list"

definition applyOutput_store ::
  "nat \<Rightarrow> nat \<Rightarrow> nat \<Rightarrow> diagram_store \<Rightarrow> store \<Rightarrow> ruleOutput \<Rightarrow> error + store" where
  "applyOutput_store nbCells t c diagram store output =
     (let targetCell = int c + neighbor output in
      if int t + futureStep output < int (length diagram) \<and> 0 \<le> targetCell \<and> targetCell < int nbCells
      then
        if int t + futureStep output < 0 then Inl TypeError
        else
          let target = diagram ! nat (int t + futureStep output) in
          if nat targetCell < length target
          then Inr (store[target ! nat targetCell :=
                      insert (signal output) (store ! (target ! nat targetCell))])
          else Inl TypeError
      else Inr store)"

fun forEach_output_store ::
  "nat \<Rightarrow> nat \<Rightarrow> nat \<Rightarrow> diagram_store \<Rightarrow> ruleOutput list \<Rightarrow> store \<Rightarrow> error + store" where
  "forEach_output_store nbCells t c diagram [] store = Inr store"
| "forEach_output_store nbCells t c diagram (output # rest) store =
     (case applyOutput_store nbCells t c diagram store output of
        Inl e \<Rightarrow> Inl e
      | Inr store' \<Rightarrow> forEach_output_store nbCells t c diagram rest store')"

fun for_rules_store ::
  "nat \<Rightarrow> nat \<Rightarrow> nat \<Rightarrow> diagram_store \<Rightarrow> neighborhood_store \<Rightarrow> rule list \<Rightarrow> store \<Rightarrow> error + store"
where
  "for_rules_store nbCells t c diagram neighborhood [] store = Inr store"
| "for_rules_store nbCells t c diagram neighborhood (rule # rest) store =
     (case eval (condition rule) (contents_store store neighborhood) of
        Inl e \<Rightarrow> Inl e
      | Inr fires \<Rightarrow>
          if fires then
            (case forEach_output_store nbCells t c diagram (outputs rule) store of
               Inl e \<Rightarrow> Inl e
             | Inr store' \<Rightarrow> for_rules_store nbCells t c diagram neighborhood rest store')
          else for_rules_store nbCells t c diagram neighborhood rest store)"

definition cell_step_store ::
  "automaton \<Rightarrow> nat \<Rightarrow> nat \<Rightarrow> nat \<Rightarrow> diagram_store \<Rightarrow> store \<Rightarrow> error + store" where
  "cell_step_store this nbCells t c diagram store =
     (let config = diagram ! t in
      case getNeighborhood_store config c (minNeighbor this) (maxNeighbor this) store of
        (store', neighborhood) \<Rightarrow>
          for_rules_store nbCells t c diagram neighborhood (rules this) store')"

fun for_cells_store ::
  "automaton \<Rightarrow> nat \<Rightarrow> nat \<Rightarrow> diagram_store \<Rightarrow> nat list \<Rightarrow> store \<Rightarrow> error + store" where
  "for_cells_store this nbCells t diagram [] store = Inr store"
| "for_cells_store this nbCells t diagram (c # rest) store =
     (case cell_step_store this nbCells t c diagram store of
        Inl e \<Rightarrow> Inl e
      | Inr store' \<Rightarrow> for_cells_store this nbCells t diagram rest store')"

fun for_steps_store ::
  "automaton \<Rightarrow> nat \<Rightarrow> diagram_store \<Rightarrow> nat list \<Rightarrow> store \<Rightarrow> error + store" where
  "for_steps_store this nbCells diagram [] store = Inr store"
| "for_steps_store this nbCells diagram (t # rest) store =
     (case for_cells_store this nbCells t diagram [0..<nbCells] store of
        Inl e \<Rightarrow> Inl e
      | Inr store' \<Rightarrow> for_steps_store this nbCells diagram rest store')"

text \<open>
  The first loop of \<^verbatim>\<open>makeDiagram\<close>, \<^verbatim>\<open>diagram.push(new Configuration(nbCells))\<close>, for the
  number of steps still to push; then \<^verbatim>\<open>makeDiagram\<close>, on the \<^verbatim>\<open>cells\<close> array of the initial
  configuration and the store at the call. The result is the store at the return and the
  diagram returned, or the exception.
\<close>

fun push_Configurations :: "nat \<Rightarrow> nat \<Rightarrow> diagram_store \<Rightarrow> store \<Rightarrow> store \<times> diagram_store" where
  "push_Configurations nbCells 0 diagram store = (store, diagram)"
| "push_Configurations nbCells (Suc n) diagram store =
     (case Configuration_store nbCells store of
        (store', config) \<Rightarrow> push_Configurations nbCells n (diagram @ [config]) store')"

definition makeDiagram_store ::
  "automaton \<Rightarrow> nat list \<Rightarrow> nat \<Rightarrow> store \<Rightarrow> error + store \<times> diagram_store" where
  "makeDiagram_store this initialConfiguration nbSteps store =
     (let nbCells = length initialConfiguration in
      case push_Configurations nbCells nbSteps [initialConfiguration] store of
        (store', diagram) \<Rightarrow>
          (case for_steps_store this nbCells diagram [0..<nbSteps] store' of
             Inl e \<Rightarrow> Inl e
           | Inr store'' \<Rightarrow> Inr (store'', diagram)))"

text \<open>
  The structure of a diagram in a store: the signals of every cell of every configuration,
  without the addresses. \<open>returned\<close> is the structure of the diagram a call returns, or the
  exception it raises.
\<close>

definition structure_of :: "store \<Rightarrow> diagram_store \<Rightarrow> diagram" where
  "structure_of store diagram = map (\<lambda>config. \<lparr>cells = map (\<lambda>a. store ! a) config\<rparr>) diagram"

definition returned :: "error + store \<times> diagram_store \<Rightarrow> error + diagram" where
  "returned result =
     (case result of Inl e \<Rightarrow> Inl e | Inr (store, diagram) \<Rightarrow> Inr (structure_of store diagram))"

section \<open>Reading the rules\<close>

text \<open>
  The source holds two versions of Automaton.ts. Their constructor and their
  \<^verbatim>\<open>makeDiagram\<close> are the same text; they differ in \<^verbatim>\<open>readConditionTokens\<close>,
  \<^verbatim>\<open>parseCondition\<close> and \<^verbatim>\<open>parseOutputs\<close>. The functions of src/lib/automata/Automaton.ts
  keep their names; the ones of the second version (part\_000) have the suffix \<open>_part000\<close>.
\<close>

subsection \<open>Strings and regular expressions of JavaScript\<close>

definition in_range :: "char \<Rightarrow> char \<Rightarrow> char \<Rightarrow> bool" where
  "in_range lo hi c = ((of_char lo :: nat) \<le> of_char c \<and> (of_char c :: nat) \<le> of_char hi)"

text \<open>\<^verbatim>\<open>\d\<close>\<close>

definition isDigit :: "char \<Rightarrow> bool" where
  "isDigit c = in_range CHR ''0'' CHR ''9'' c"

text \<open>\<^verbatim>\<open>[A-Za-z0-9_$']\<close>\<close>

definition isNameChar :: "char \<Rightarrow> bool" where
  "isNameChar c =
     (in_range CHR ''A'' CHR ''Z'' c \<or> in_range CHR ''a'' CHR ''z'' c \<or> in_range CHR ''0'' CHR ''9'' c
      \<or> c = CHR ''_'' \<or> c = CHR ''$'' \<or> c = CHR 0x27)"

text \<open>
  \<^verbatim>\<open>\s\<close>, also what \<^verbatim>\<open>trim\<close> removes: among the code units below 256 these are
  TAB, LF, VT, FF, CR, the space and the no-break space.
\<close>

definition isSpace :: "char \<Rightarrow> bool" where
  "isSpace c = (c \<in> {CHR 0x09, CHR 0x0A, CHR 0x0B, CHR 0x0C, CHR 0x0D, CHR '' '', CHR 0xA0})"

text \<open>The line terminators, which \<^verbatim>\<open>.\<close> does not match: LF and CR below 256.\<close>

definition isLineTerminator :: "char \<Rightarrow> bool" where
  "isLineTerminator c = (c = CHR 0x0A \<or> c = CHR 0x0D)"

text \<open>\<^verbatim>\<open>str.split(sep)\<close> for a separator of one character.\<close>

fun split :: "char \<Rightarrow> string \<Rightarrow> string list" where
  "split sep [] = [[]]"
| "split sep (c # cs) =
     (if c = sep then [] # split sep cs
      else (case split sep cs of [] \<Rightarrow> [[c]] | w # ws \<Rightarrow> (c # w) # ws))"

text \<open>\<^verbatim>\<open>str.trim()\<close>\<close>

definition trim :: "string \<Rightarrow> string" where
  "trim s = rev (dropWhile isSpace (rev (dropWhile isSpace s)))"

text \<open>
  Numbers. The numbers of the source are doubles; the ones it handles are integral or
  infinite. A number is modelled by the integer it is, \<^verbatim>\<open>Infinity\<close> by \<open>2 ^ 1024\<close> and
  \<^verbatim>\<open>-Infinity\<close> by \<open>- (2 ^ 1024)\<close>, which are no doubles. The source only adds such a number
  to the index of a cell or of a step and compares the sum with the length of an array,
  which is below \<open>2 ^ 32\<close>, or with 0: the rounding of the sum to a double changes none of
  these comparisons, and the sum is used as an index only where it is within the array.

  \<open>round_to_double n\<close> is the double nearest to the natural number \<open>n\<close>, ties to the even
  significand of 53 bits, \<^verbatim>\<open>Infinity\<close> from \<open>2 ^ 1024\<close> on.
\<close>

function bit_length :: "int \<Rightarrow> nat" where
  "bit_length n = (if n \<le> 0 then 0 else Suc (bit_length (n div 2)))"
  by pat_completeness auto
termination
  by (relation "measure nat") auto

definition round_to_double :: "int \<Rightarrow> int" where
  "round_to_double n =
     (if n < 2 ^ 53 then n
      else
        let e = bit_length n - 53;
            q = n div 2 ^ e;
            r = n mod 2 ^ e;
            q' = (if 2 * r > 2 ^ e \<or> (2 * r = 2 ^ e \<and> odd q) then q + 1 else q)
        in if q' * 2 ^ e \<ge> 2 ^ 1024 then 2 ^ 1024 else q' * 2 ^ e)"

text \<open>
  \<^verbatim>\<open>parseInt\<close> on the strings it is applied to here, an optional sign and digits (the
  regular expressions admit no other): the double nearest to the number the digits write.
  (On a string without digits \<^verbatim>\<open>parseInt\<close> is NaN; no call of the model is on such a
  string, and \<open>digits_value\<close> of no digit is 0.)
\<close>

definition digits_value :: "string \<Rightarrow> int" where
  "digits_value ds = foldl (\<lambda>n c. 10 * n + (of_char c - 48)) 0 ds"

definition parseInt :: "string \<Rightarrow> int" where
  "parseInt s =
     (case s of
        [] \<Rightarrow> 0
      | c # r \<Rightarrow>
          if c = CHR ''-'' then - round_to_double (digits_value (takeWhile isDigit r))
          else if c = CHR ''+'' then round_to_double (digits_value (takeWhile isDigit r))
          else round_to_double (digits_value (takeWhile isDigit s)))"

text \<open>
  A regular expression is modelled by its matcher at the start of a string: \<open>None\<close> when
  it does not match there, else what it captured and the rest of the string after the
  match.

  \<open>match_number signs\<close> is \<^verbatim>\<open>[signs]?\d+\<close>; it captures the text of the number. The
  repetition is greedy, and no shorter match can help what follows it in the expressions
  below (a \<^verbatim>\<open>/\<close> or a \<^verbatim>\<open>.\<close>, where a shorter match is followed by a digit).
\<close>

type_synonym 'a matcher = "string \<Rightarrow> ('a \<times> string) option"

definition match_number :: "string \<Rightarrow> string matcher" where
  "match_number signs s =
     (case s of
        [] \<Rightarrow> None
      | c # r \<Rightarrow>
          if c \<in> set signs then
            (if takeWhile isDigit r = [] then None
             else Some (c # takeWhile isDigit r, dropWhile isDigit r))
          else
            (if takeWhile isDigit s = [] then None
             else Some (takeWhile isDigit s, dropWhile isDigit s)))"

text \<open>\<open>number_then signs d\<close> is \<^verbatim>\<open>([signs]?\d+)d\<close> for a character \<open>d\<close>.\<close>

definition number_then :: "string \<Rightarrow> char \<Rightarrow> string matcher" where
  "number_then signs d s =
     (case match_number signs s of
        None \<Rightarrow> None
      | Some (n, r) \<Rightarrow> (case r of [] \<Rightarrow> None | c # r' \<Rightarrow> if c = d then Some (n, r') else None))"

text \<open>\<^verbatim>\<open>[A-Za-z0-9_$']+\<close>, the signal name; greedy, and nothing follows it.\<close>

definition match_name :: "string matcher" where
  "match_name s =
     (if takeWhile isNameChar s = [] then None
      else Some (takeWhile isNameChar s, dropWhile isNameChar s))"

text \<open>\<^verbatim>\<open>[+-]\<close>, the sign of a literal.\<close>

definition match_sign :: "string matcher" where
  "match_sign s =
     (case s of [] \<Rightarrow> None | c # r \<Rightarrow> if c = CHR ''+'' \<or> c = CHR ''-'' then Some ([c], r) else None)"

text \<open>
  \<open>opt_then p q\<close> is \<^verbatim>\<open>p?q\<close>: the optional part is tried first and, if \<open>q\<close> does not match
  after it, given up (backtracking). A group that took no part in the match is
  \<^verbatim>\<open>undefined\<close>, here \<open>None\<close>.
\<close>

definition opt_then :: "'a matcher \<Rightarrow> 'b matcher \<Rightarrow> ('a option \<times> 'b) matcher" where
  "opt_then p q s =
     (case (case p s of
              None \<Rightarrow> None
            | Some (a, r) \<Rightarrow> (case q r of None \<Rightarrow> None | Some (b, r') \<Rightarrow> Some ((Some a, b), r')))
      of
        Some m \<Rightarrow> Some m
      | None \<Rightarrow> (case q s of None \<Rightarrow> None | Some (b, r') \<Rightarrow> Some ((None, b), r')))"

text \<open>
  The successive matches of a global regular expression in a string, each with its text:
  \<^verbatim>\<open>str.match(re)\<close> (the texts; \<^verbatim>\<open>null\<close> is the empty list) and the loop of \<^verbatim>\<open>re.exec(str)\<close>.
  After a match the search goes on where the match ended; where the expression does not
  match, one character further. (\<^verbatim>\<open>match\<close> steps over an empty match in this way; the
  expressions here match no empty string.)
\<close>

fun match_all :: "'a matcher \<Rightarrow> string \<Rightarrow> ('a \<times> string) list" where
  "match_all re [] = []"
| "match_all re (c # cs) =
     (case re (c # cs) of
        None \<Rightarrow> match_all re cs
      | Some (groups, rest) \<Rightarrow>
          if length rest < length (c # cs)
          then (groups, take (length (c # cs) - length rest) (c # cs)) # match_all re rest
          else (groups, []) # match_all re cs)"

text \<open>\<^verbatim>\<open>re.exec(str)\<close> for an expression that is not global: the first match, from the left.\<close>

fun exec :: "'a matcher \<Rightarrow> string \<Rightarrow> 'a option" where
  "exec re [] = map_option fst (re [])"
| "exec re (c # cs) = (case re (c # cs) of None \<Rightarrow> exec re cs | Some (groups, rest) \<Rightarrow> Some groups)"

subsection \<open>Conditions, in src/lib/automata/Automaton.ts\<close>

text \<open>\<^verbatim>\<open>(\(|\)|\[|\]|\+|-|[A-Za-z0-9_$']+)\<close>\<close>

definition tokenRE_condition :: "unit matcher" where
  "tokenRE_condition s =
     (case s of
        [] \<Rightarrow> None
      | c # r \<Rightarrow>
          if c \<in> set ''()[]+-'' then Some ((), r)
          else map_option (\<lambda>(name, rest). ((), rest)) (match_name s))"

text \<open>
  \<^verbatim>\<open>readConditionTokens\<close> shifts the tokens it reads off the array it is given; the model
  returns the clause and the tokens left. \<open>read_subclauses closing\<close> is the \<^verbatim>\<open>while\<close> loop
  of a group with the \<^verbatim>\<open>shift\<close> that follows it.
\<close>

function readConditionTokens :: "string list \<Rightarrow> error + clause \<times> string list"
  and read_subclauses :: "string \<Rightarrow> clause list \<Rightarrow> string list \<Rightarrow> error + clause list \<times> string list"
where
  "readConditionTokens [] = Inr (Clause, [])"
| "readConditionTokens (token # conditionTokens) =
     (if token = ''('' then
        (case read_subclauses '')'' [] conditionTokens of
           Inl e \<Rightarrow> Inl e
         | Inr (subclauses, rest) \<Rightarrow>
             Inr (if length subclauses = 1 then subclauses ! 0 else new_Conjunction subclauses, rest))
      else if token = ''['' then
        (case read_subclauses '']'' [] conditionTokens of
           Inl e \<Rightarrow> Inl e
         | Inr (subclauses, rest) \<Rightarrow>
             Inr (if length subclauses = 1 then subclauses ! 0 else new_Disjunction subclauses, rest))
      else if token = ''-'' then
        (case readConditionTokens conditionTokens of
           Inl e \<Rightarrow> Inl e
         | Inr (negatedCondition, rest) \<Rightarrow>
             (case negatedCondition of
                Negation subclause \<Rightarrow> Inr (subclause, rest)
              | _ \<Rightarrow> Inr (Negation negatedCondition, rest)))
      else if token = ''+'' then readConditionTokens conditionTokens
      else Inr (Literal token 0 0, conditionTokens))"
| "read_subclauses closing subclauses [] =
     Inl (RuleParsingException ''Unbalanced parentheses in condition'')"
| "read_subclauses closing subclauses (token # conditionTokens) =
     (if token = closing then Inr (subclauses, conditionTokens)
      else
        (case readConditionTokens (token # conditionTokens) of
           Inl e \<Rightarrow> Inl e
         | Inr (subclause, rest) \<Rightarrow> read_subclauses closing (subclauses @ [subclause]) rest))"
  by pat_completeness auto

lemma read_shorter:
  "readConditionTokens_read_subclauses_dom (Inl ts) \<Longrightarrow>
     readConditionTokens ts = Inr (c, rest) \<Longrightarrow> length rest \<le> length ts - 1"
  "readConditionTokens_read_subclauses_dom (Inr (closing, subs, ts')) \<Longrightarrow>
     read_subclauses closing subs ts' = Inr (cs, rest') \<Longrightarrow> length rest' < length ts'"
proof (induction ts and closing subs ts' arbitrary: c rest and cs rest'
       rule: readConditionTokens_read_subclauses.pinduct)
  case 1
  then show ?case by (simp add: readConditionTokens.psimps)
next
  case (2 token conditionTokens)
  note dom = "2.hyps"
  note eq = "2.prems"[unfolded readConditionTokens.psimps(2)[OF dom]]
  consider (paren) "token = ''(''" | (bracket) "token \<noteq> ''(''" "token = ''[''"
    | (minus) "token \<noteq> ''(''" "token \<noteq> ''[''" "token = ''-''"
    | (plus) "token \<noteq> ''(''" "token \<noteq> ''[''" "token \<noteq> ''-''" "token = ''+''"
    | (name) "token \<noteq> ''(''" "token \<noteq> ''[''" "token \<noteq> ''-''" "token \<noteq> ''+''"
    by blast
  then show ?case
  proof cases
    case paren
    with eq obtain subs where "read_subclauses '')'' [] conditionTokens = Inr (subs, rest)"
      by (auto split: sum.splits prod.splits)
    from "2.IH"(1)[OF paren this] show ?thesis by simp
  next
    case bracket
    with eq obtain subs where "read_subclauses '']'' [] conditionTokens = Inr (subs, rest)"
      by (auto split: sum.splits prod.splits)
    from "2.IH"(2)[OF bracket this] show ?thesis by simp
  next
    case minus
    with eq obtain n where "readConditionTokens conditionTokens = Inr (n, rest)"
      by (auto split: sum.splits prod.splits clause.splits)
    from "2.IH"(3)[OF minus this] show ?thesis by simp
  next
    case plus
    with eq have "readConditionTokens conditionTokens = Inr (c, rest)"
      by simp
    from "2.IH"(4)[OF plus this] show ?thesis by simp
  next
    case name
    with eq show ?thesis by simp
  qed
next
  case (3 closing subclauses)
  then show ?case by (simp add: read_subclauses.psimps)
next
  case (4 closing subclauses token conditionTokens)
  note dom = "4.hyps"
  note eq = "4.prems"[unfolded read_subclauses.psimps(2)[OF dom]]
  show ?case
  proof (cases "token = closing")
    case True
    with eq show ?thesis by simp
  next
    case False
    with eq obtain sub r where r: "readConditionTokens (token # conditionTokens) = Inr (sub, r)"
      and l: "read_subclauses closing (subclauses @ [sub]) r = Inr (cs, rest')"
      by (auto split: sum.splits prod.splits)
    from "4.IH"(1)[OF False r] have "length r \<le> length conditionTokens" by simp
    moreover from "4.IH"(2)[OF False r refl l] have "length rest' < length r" .
    ultimately show ?thesis by simp
  qed
qed

termination readConditionTokens
  apply (relation "measure (\<lambda>x. case x of Inl ts \<Rightarrow> 2 * length ts
                                | Inr (closing, subs, ts) \<Rightarrow> 2 * length ts + 1)")
       apply simp_all
  apply clarify
  apply (drule read_shorter(1), assumption)
  apply simp
  done

definition parseCondition :: "string \<Rightarrow> error + clause" where
  "parseCondition conditionString =
     (let tokens = map snd (match_all tokenRE_condition conditionString) in
      if tokens = [] then Inl (RuleParsingException ''Invalid condition'')
      else
        (case readConditionTokens tokens of
           Inl e \<Rightarrow> Inl e
         | Inr (cond, rest) \<Rightarrow>
             if length rest > 0 then Inl (RuleParsingException ''Invalid condition'')
             else Inr cond))"

subsection \<open>Outputs, in src/lib/automata/Automaton.ts\<close>

text \<open>\<^verbatim>\<open>(((-?\d+\/)?-?\d+\.)?[A-Za-z0-9_$']+)\<close>\<close>

definition tokenRE_outputs :: "((string option \<times> string) option \<times> string) matcher" where
  "tokenRE_outputs =
     opt_then (opt_then (number_then ''-'' CHR ''/'') (number_then ''-'' CHR ''.'')) match_name"

text \<open>
  The body of the loop over the tokens: the output of one token, and the new value of
  \<^verbatim>\<open>this.maxFutureDepth\<close>. The indices 0 and 1 of a \<^verbatim>\<open>split\<close> exist where they are read,
  the separator being in the string.
\<close>

definition output_of_token :: "int \<Rightarrow> string \<Rightarrow> ruleOutput \<times> int" where
  "output_of_token depth token =
     (if CHR ''.'' \<in> set token then
        let outputSplit = split CHR ''.'' token;
            neighborString = outputSplit ! 0;
            signalName = outputSplit ! 1
        in
          if CHR ''/'' \<in> set neighborString then
            let neighborString' = split CHR ''/'' neighborString ! 0;
                futureStepString = split CHR ''/'' neighborString ! 1;
                futureStep = parseInt futureStepString
            in (\<lparr>neighbor = (if neighborString' = [] then 0 else parseInt neighborString'),
                 signal = signalName, futureStep = futureStep\<rparr>,
                max depth futureStep)
          else
            (\<lparr>neighbor = (if neighborString = [] then 0 else parseInt neighborString),
              signal = signalName, futureStep = 1\<rparr>,
             depth)
      else (\<lparr>neighbor = 0, signal = token, futureStep = 1\<rparr>, depth))"

fun outputs_of_tokens :: "int \<Rightarrow> ruleOutput list \<Rightarrow> string list \<Rightarrow> ruleOutput list \<times> int" where
  "outputs_of_tokens depth outs [] = (outs, depth)"
| "outputs_of_tokens depth outs (token # tokens) =
     (case output_of_token depth token of
        (output, depth') \<Rightarrow> outputs_of_tokens depth' (outs @ [output]) tokens)"

text \<open>\<^verbatim>\<open>parseOutputs\<close>, from the current \<^verbatim>\<open>this.maxFutureDepth\<close> to the outputs and its new value.\<close>

definition parseOutputs :: "int \<Rightarrow> string \<Rightarrow> error + ruleOutput list \<times> int" where
  "parseOutputs depth outputsString =
     (let tokens = map snd (match_all tokenRE_outputs outputsString) in
      if tokens = [] then Inl (RuleParsingException ''Invalid outputs'')
      else Inr (outputs_of_tokens depth [] tokens))"

subsection \<open>Conditions and outputs, in the second version\<close>

text \<open>\<^verbatim>\<open>timeStepRE\<close>, \<^verbatim>\<open>coordinateRE\<close>, \<^verbatim>\<open>signalNameRE\<close>, \<^verbatim>\<open>signRE\<close>\<close>

definition timeStepRE :: "string matcher" where
  "timeStepRE = number_then ''+-'' CHR ''/''"

definition coordinateRE :: "string matcher" where
  "coordinateRE = number_then ''+-'' CHR ''.''"

definition signalNameRE :: "string matcher" where
  "signalNameRE = match_name"

definition signRE :: "string matcher" where
  "signRE = match_sign"

text \<open>The groups of a match of \<open>conditionItemRE\<close> are \<open>(time, coord, sign, signal)\<close>.\<close>

definition conditionItemRE :: "(string option \<times> string option \<times> string option \<times> string) matcher" where
  "conditionItemRE = opt_then timeStepRE (opt_then coordinateRE (opt_then signRE signalNameRE))"

text \<open>\<^verbatim>\<open>[\[\]()]|conditionItemRE\<close>\<close>

definition conditionTokensRE :: "unit matcher" where
  "conditionTokensRE s =
     (case s of
        [] \<Rightarrow> None
      | c # r \<Rightarrow>
          if c \<in> set ''[]()'' then Some ((), r)
          else map_option (\<lambda>(groups, rest). ((), rest)) (conditionItemRE s))"

text \<open>The groups of a match of \<open>outputItemRE\<close> are \<open>(time, coord, signal)\<close>.\<close>

definition outputItemRE :: "(string option \<times> string option \<times> string) matcher" where
  "outputItemRE = opt_then timeStepRE (opt_then coordinateRE signalNameRE)"

text \<open>\<^verbatim>\<open>value || dflt\<close> for a group: the default when the group is undefined.\<close>

definition or_default :: "string option \<Rightarrow> string \<Rightarrow> string" where
  "or_default captured dflt =
     (case captured of None \<Rightarrow> dflt | Some s \<Rightarrow> if s = [] then dflt else s)"

text \<open>
  \<^verbatim>\<open>readConditionTokens\<close> of the second version. Its \<^verbatim>\<open>while\<close> loops do not test whether any
  token is left: on no token, \<^verbatim>\<open>conditionTokens[0]\<close> is undefined, which is not the closing
  token, and the call in the body returns \<^verbatim>\<open>new Clause()\<close> without consuming anything; the
  loop goes on pushing until \<^verbatim>\<open>subclauses\<close> can grow no more and \<^verbatim>\<open>push\<close> raises a RangeError.
  \<open>maxLength\<close> is the greatest length the engine gives an array (\<open>2 ^ 32 - 1\<close> in ECMAScript,
  less where memory ends sooner); the source does not fix it and it is a parameter.
  A token that is no item makes \<^verbatim>\<open>exec\<close> return \<^verbatim>\<open>null\<close>, and \<^verbatim>\<open>item.groups\<close> raises a
  TypeError.
\<close>

function readConditionTokens_part000 :: "int \<Rightarrow> string list \<Rightarrow> error + clause \<times> string list"
  and read_subclauses_part000 ::
    "int \<Rightarrow> string \<Rightarrow> clause list \<Rightarrow> string list \<Rightarrow> error + clause list \<times> string list"
where
  "readConditionTokens_part000 maxLength [] = Inr (Clause, [])"
| "readConditionTokens_part000 maxLength (token # conditionTokens) =
     (if token = ''['' then
        (case read_subclauses_part000 maxLength '']'' [] conditionTokens of
           Inl e \<Rightarrow> Inl e
         | Inr (subclauses, rest) \<Rightarrow>
             Inr (if length subclauses = 0 then Negation Clause
                  else if length subclauses = 1 then subclauses ! 0
                  else new_Disjunction subclauses, rest))
      else if token = ''('' then
        (case read_subclauses_part000 maxLength '')'' [] conditionTokens of
           Inl e \<Rightarrow> Inl e
         | Inr (subclauses, rest) \<Rightarrow>
             Inr (if length subclauses = 0 then Clause
                  else if length subclauses = 1 then subclauses ! 0
                  else new_Conjunction subclauses, rest))
      else
        (case exec conditionItemRE token of
           None \<Rightarrow> Inl TypeError
         | Some (time, coord, sign, name) \<Rightarrow>
             let timeStep = parseInt (or_default time ''0'');
                 position = parseInt (or_default coord ''0'')
             in if sign = Some ''-''
                then Inr (Negation (Literal name position timeStep), conditionTokens)
                else Inr (Literal name position timeStep, conditionTokens)))"
| "read_subclauses_part000 maxLength closing subclauses [] =
     (case readConditionTokens_part000 maxLength [] of
        Inl e \<Rightarrow> Inl e
      | Inr (subclause, rest) \<Rightarrow>
          if int (length subclauses) \<ge> maxLength then Inl RangeError
          else read_subclauses_part000 maxLength closing (subclauses @ [subclause]) rest)"
| "read_subclauses_part000 maxLength closing subclauses (token # conditionTokens) =
     (if token = closing then Inr (subclauses, conditionTokens)
      else
        (case readConditionTokens_part000 maxLength (token # conditionTokens) of
           Inl e \<Rightarrow> Inl e
         | Inr (subclause, rest) \<Rightarrow>
             if int (length subclauses) \<ge> maxLength then Inl RangeError
             else read_subclauses_part000 maxLength closing (subclauses @ [subclause]) rest))"
  by pat_completeness auto

lemma read_part000_shorter:
  "readConditionTokens_part000_read_subclauses_part000_dom (Inl (L, ts)) \<Longrightarrow>
     readConditionTokens_part000 L ts = Inr (c, rest) \<Longrightarrow> length rest \<le> length ts - 1"
  "readConditionTokens_part000_read_subclauses_part000_dom (Inr (L', closing, subs, ts')) \<Longrightarrow>
     read_subclauses_part000 L' closing subs ts' = Inr (cs, rest') \<Longrightarrow> length rest' < length ts'"
proof (induction L ts and L' closing subs ts' arbitrary: c rest and cs rest'
       rule: readConditionTokens_part000_read_subclauses_part000.pinduct)
  case (1 maxLength)
  then show ?case by (simp add: readConditionTokens_part000.psimps)
next
  case (2 maxLength token conditionTokens)
  note dom = "2.hyps"
  note eq = "2.prems"[unfolded readConditionTokens_part000.psimps(2)[OF dom]]
  consider (bracket) "token = ''[''" | (paren) "token \<noteq> ''[''" "token = ''(''"
    | (item) "token \<noteq> ''[''" "token \<noteq> ''(''"
    by blast
  then show ?case
  proof cases
    case bracket
    with eq obtain subs where "read_subclauses_part000 maxLength '']'' [] conditionTokens = Inr (subs, rest)"
      by (auto split: sum.splits prod.splits)
    from "2.IH"(1)[OF bracket this] show ?thesis by simp
  next
    case paren
    with eq obtain subs where "read_subclauses_part000 maxLength '')'' [] conditionTokens = Inr (subs, rest)"
      by (auto split: sum.splits prod.splits)
    from "2.IH"(2)[OF paren this] show ?thesis by simp
  next
    case item
    with eq show ?thesis
      by (auto simp: Let_def split: option.splits prod.splits if_splits)
  qed
next
  case (3 maxLength closing subclauses)
  note dom = "3.hyps"
  note eq = "3.prems"[unfolded read_subclauses_part000.psimps(1)[OF dom]]
  show ?case
  proof (cases "readConditionTokens_part000 maxLength []")
    case (Inl e)
    with eq show ?thesis by simp
  next
    case (Inr b)
    obtain sub r where b: "b = (sub, r)" by (cases b)
    from "3.IH"(1)[of sub r] Inr b have r: "r = []" by simp
    from eq Inr b have full: "\<not> int (length subclauses) \<ge> maxLength"
      and l: "read_subclauses_part000 maxLength closing (subclauses @ [sub]) r = Inr (cs, rest')"
      by (auto split: if_splits)
    from "3.IH"(2)[OF Inr b[symmetric] full l] r show ?thesis by simp
  qed
next
  case (4 maxLength closing subclauses token conditionTokens)
  note dom = "4.hyps"
  note eq = "4.prems"[unfolded read_subclauses_part000.psimps(2)[OF dom]]
  show ?case
  proof (cases "token = closing")
    case True
    with eq show ?thesis by simp
  next
    case False
    with eq obtain sub r where r: "readConditionTokens_part000 maxLength (token # conditionTokens) = Inr (sub, r)"
      and full: "\<not> int (length subclauses) \<ge> maxLength"
      and l: "read_subclauses_part000 maxLength closing (subclauses @ [sub]) r = Inr (cs, rest')"
      by (auto split: sum.splits prod.splits if_splits)
    from "4.IH"(1)[OF False r] have "length r \<le> length conditionTokens" by simp
    moreover from "4.IH"(2)[OF False r refl full l] have "length rest' < length r" .
    ultimately show ?thesis by simp
  qed
qed

termination readConditionTokens_part000
  apply (relation "inv_image (less_than <*lex*> less_than)
            (\<lambda>x. case x of Inl (L, ts) \<Rightarrow> (length ts, 0)
                   | Inr (L, closing, subs, ts) \<Rightarrow>
                       (length ts, Suc (nat (L - int (length subs)))))")
        apply simp_all
   apply (auto dest!: read_part000_shorter(1))
  done

text \<open>
  \<^verbatim>\<open>parseCondition\<close> of the second version: when nothing matches, \<^verbatim>\<open>tokens\<close> is \<^verbatim>\<open>null\<close> and
  \<^verbatim>\<open>conditionTokens.shift()\<close> raises a TypeError.
\<close>

definition parseCondition_part000 :: "int \<Rightarrow> string \<Rightarrow> error + clause" where
  "parseCondition_part000 maxLength conditionString =
     (let tokens = map snd (match_all conditionTokensRE conditionString) in
      if tokens = [] then Inl TypeError
      else
        (case readConditionTokens_part000 maxLength tokens of
           Inl e \<Rightarrow> Inl e
         | Inr (cond, rest) \<Rightarrow>
             if length rest > 0 then Inl (RuleParsingException ''Unbalanced condition'')
             else Inr cond))"

text \<open>
  \<^verbatim>\<open>parseOutputs\<close> of the second version: one output for every match, and
  \<^verbatim>\<open>this.maxFutureDepth\<close> is left as it is.
\<close>

definition parseOutputs_part000 :: "int \<Rightarrow> string \<Rightarrow> error + ruleOutput list \<times> int" where
  "parseOutputs_part000 depth outputsString =
     Inr (map (\<lambda>((time, coord, name), text).
                 \<lparr>neighbor = parseInt (or_default coord ''0''), signal = name,
                  futureStep = parseInt (or_default time ''1'')\<rparr>)
              (match_all outputItemRE outputsString),
          depth)"

subsection \<open>The constructor\<close>

text \<open>
  The constructor is the same in both versions; it is given the \<^verbatim>\<open>parseCondition\<close> and
  \<^verbatim>\<open>parseOutputs\<close> of its version. The stack of conditions has its top at the head
  (\<^verbatim>\<open>unshift\<close>, \<^verbatim>\<open>shift\<close>, index 0); an entry is \<open>(condition, indent)\<close>.

  \<open>remove_comment\<close> is \<^verbatim>\<open>line.replace(/#.*/, '')\<close>: from the first \<^verbatim>\<open>#\<close> up to the next line
  terminator. \<open>search_non_space\<close> is \<^verbatim>\<open>line.search(/\S|$/)\<close>.
\<close>

definition search_non_space :: "string \<Rightarrow> nat" where
  "search_non_space line = length (takeWhile isSpace line)"

definition remove_comment :: "string \<Rightarrow> string" where
  "remove_comment line =
     takeWhile (\<lambda>c. c \<noteq> CHR ''#'') line
       @ dropWhile (\<lambda>c. \<not> isLineTerminator c) (dropWhile (\<lambda>c. c \<noteq> CHR ''#'') line)"

type_synonym conditionsStack = "(clause \<times> nat) list"

text \<open>
  ``prepare condition'': the condition of the line and the stack after it. A condition
  string that is undefined or empty is false in \<^verbatim>\<open>if (conditionString)\<close>; then
  \<^verbatim>\<open>conditionsStack[0].condition\<close> raises a TypeError on an empty stack.
\<close>

definition prepare_condition ::
  "(string \<Rightarrow> error + clause) \<Rightarrow> string option \<Rightarrow> nat \<Rightarrow> conditionsStack
     \<Rightarrow> error + clause \<times> conditionsStack" where
  "prepare_condition parseCond conditionString indent conditionsStack =
     (case conditionString of
        Some (c # cs) \<Rightarrow>
          (case parseCond (c # cs) of
             Inl e \<Rightarrow> Inl e
           | Inr lineCondition \<Rightarrow>
               let cond =
                     (case conditionsStack of
                        [] \<Rightarrow> lineCondition
                      | (parent, parentIndent) # below \<Rightarrow> new_Conjunction [parent, lineCondition])
               in Inr (cond, (cond, indent) # conditionsStack))
      | _ \<Rightarrow>
          (case conditionsStack of
             [] \<Rightarrow> Inl TypeError
           | (parent, parentIndent) # below \<Rightarrow> Inr (parent, conditionsStack)))"

text \<open>The body of the loop over the lines, on the automaton under construction and the stack.\<close>

definition read_line ::
  "(string \<Rightarrow> error + clause) \<Rightarrow> (int \<Rightarrow> string \<Rightarrow> error + ruleOutput list \<times> int)
     \<Rightarrow> automaton \<times> conditionsStack \<Rightarrow> string \<Rightarrow> error + automaton \<times> conditionsStack" where
  "read_line parseCond parseOuts state rawLine =
     (let this = fst state;
          indent = search_non_space rawLine;
          line = trim (remove_comment rawLine)
      in
        if length line = 0 then Inr state
        else
          let conditionString = (if CHR '':'' \<in> set line then Some (split CHR '':'' line ! 0) else None);
              outputsString = (if CHR '':'' \<in> set line then split CHR '':'' line ! 1 else line);
              conditionsStack = dropWhile (\<lambda>entry. snd entry \<ge> indent) (snd state)
          in
            (case prepare_condition parseCond conditionString indent conditionsStack of
               Inl e \<Rightarrow> Inl e
             | Inr (cond, conditionsStack') \<Rightarrow>
                 if outputsString \<noteq> [] then
                   (case parseOuts (maxFutureDepth this) outputsString of
                      Inl e \<Rightarrow> Inl e
                    | Inr (outs, depth) \<Rightarrow>
                        Inr (this\<lparr>rules := rules this @ [\<lparr>condition = cond, outputs = outs\<rparr>],
                                  maxFutureDepth := depth\<rparr>,
                             conditionsStack'))
                 else Inr (this, conditionsStack')))"

fun read_lines ::
  "(string \<Rightarrow> error + clause) \<Rightarrow> (int \<Rightarrow> string \<Rightarrow> error + ruleOutput list \<times> int)
     \<Rightarrow> automaton \<times> conditionsStack \<Rightarrow> string list \<Rightarrow> error + automaton" where
  "read_lines parseCond parseOuts state [] = Inr (fst state)"
| "read_lines parseCond parseOuts state (line # lines) =
     (case read_line parseCond parseOuts state line of
        Inl e \<Rightarrow> Inl e
      | Inr state' \<Rightarrow> read_lines parseCond parseOuts state' lines)"

definition constructor ::
  "(string \<Rightarrow> error + clause) \<Rightarrow> (int \<Rightarrow> string \<Rightarrow> error + ruleOutput list \<times> int)
     \<Rightarrow> string \<Rightarrow> error + automaton" where
  "constructor parseCond parseOuts rulesString =
     read_lines parseCond parseOuts
       (\<lparr>rules = [], minNeighbor = 0, maxNeighbor = 0, maxFutureDepth = 1\<rparr>, [])
       (split CHR 0x0A rulesString)"

text \<open>\<^verbatim>\<open>new Automaton(rulesString)\<close> in src/lib/automata/Automaton.ts and in the second version.\<close>

definition new_Automaton :: "string \<Rightarrow> error + automaton" where
  "new_Automaton rulesString = constructor parseCondition parseOutputs rulesString"

definition new_Automaton_part000 :: "int \<Rightarrow> string \<Rightarrow> error + automaton" where
  "new_Automaton_part000 maxLength rulesString =
     constructor (parseCondition_part000 maxLength) parseOutputs_part000 rulesString"

section \<open>Notions used in the statements\<close>

text \<open>The position offsets of the literals of a clause.\<close>

fun positions :: "clause \<Rightarrow> int list" where
  "positions Clause = []"
| "positions (Negation subclause) = positions subclause"
| "positions (Conjunction subclauses) = concat (map positions subclauses)"
| "positions (Disjunction subclauses) = concat (map positions subclauses)"
| "positions (Literal s position timeStep) = [position]"

text \<open>
  The bounds as the spec words them (section 4.4): the minimum and the maximum, inclusive
  of 0, over the position offset of every literal of every condition and the neighbour
  offset of every output. They are compared with the fields \<open>minNeighbor\<close> and
  \<open>maxNeighbor\<close> the constructor leaves.
\<close>

definition offsets :: "rule list \<Rightarrow> int list" where
  "offsets rs = concat (map (\<lambda>rule. positions (condition rule) @ map neighbor (outputs rule)) rs)"

definition spec_minNeighbor :: "rule list \<Rightarrow> int" where
  "spec_minNeighbor rs = fold min (offsets rs) 0"

definition spec_maxNeighbor :: "rule list \<Rightarrow> int" where
  "spec_maxNeighbor rs = fold max (offsets rs) 0"

text \<open>
  The widths of the configurations of a diagram; \<open>grows d d'\<close>: \<open>d'\<close> has the shape of \<open>d\<close>
  and every cell of \<open>d'\<close> holds at least the signals it holds in \<open>d\<close>; \<open>all_width N d\<close>:
  every configuration of \<open>d\<close> has \<open>N\<close> cells.
\<close>

definition widths :: "diagram \<Rightarrow> nat list" where
  "widths d = map (\<lambda>config. length (cells config)) d"

definition grows :: "diagram \<Rightarrow> diagram \<Rightarrow> bool" where
  "grows d d' \<longleftrightarrow>
     widths d' = widths d
     \<and> (\<forall>k < length d. \<forall>j < length (cells (d ! k)). cells (d ! k) ! j \<subseteq> cells (d' ! k) ! j)"

definition all_width :: "nat \<Rightarrow> diagram \<Rightarrow> bool" where
  "all_width N d \<longleftrightarrow> widths d = replicate (length d) N"

text \<open>
  \<open>refs_within N lo hi nb\<close>: the neighbourhood holds a reference for every offset of the
  window, to a cell below \<open>N\<close> when it is to a cell. \<open>safe A\<close>: every literal of \<open>A\<close> reads
  inside the window of \<open>A\<close> and no output of \<open>A\<close> goes back in time.
\<close>

definition refs_within :: "nat \<Rightarrow> int \<Rightarrow> int \<Rightarrow> neighborhood_refs \<Rightarrow> bool" where
  "refs_within N lo hi nb \<longleftrightarrow>
     (\<forall>p. lo \<le> p \<and> p \<le> hi \<longrightarrow> (\<exists>r. nb p = Some r \<and> (\<forall>j. r = CellSet j \<longrightarrow> j < N)))"



text \<open>\<open>no_double_negation c\<close>: nowhere in \<open>c\<close> is the subclause of a Negation a Negation.\<close>

fun no_double_negation :: "clause \<Rightarrow> bool" where
  "no_double_negation Clause = True"
| "no_double_negation (Negation subclause) =
     (case subclause of Negation inner \<Rightarrow> False | _ \<Rightarrow> no_double_negation subclause)"
| "no_double_negation (Conjunction subclauses) = list_all no_double_negation subclauses"
| "no_double_negation (Disjunction subclauses) = list_all no_double_negation subclauses"
| "no_double_negation (Literal s position timeStep) = True"

text \<open>
  Notions for the store. \<open>well_formed N store diagram\<close>: the cells of the diagram are
  distinct Set objects that the store holds, \<open>N\<close> in every configuration.
  \<open>stable diagram store store'\<close>: the two stores hold the same Set objects and differ only
  in cells of the diagram. \<open>same_refs diagram t store nb refs\<close>: the neighbourhood \<open>nb\<close> of
  addresses and the neighbourhood \<open>refs\<close> of cell indices of \<^verbatim>\<open>diagram[t]\<close> refer to the same
  cells, and to empty sets outside the diagram where \<open>refs\<close> has a new Set.
\<close>

definition well_formed :: "nat \<Rightarrow> store \<Rightarrow> diagram_store \<Rightarrow> bool" where
  "well_formed N store diagram \<longleftrightarrow>
     distinct (concat diagram)
     \<and> (\<forall>config \<in> set diagram. length config = N)
     \<and> (\<forall>a \<in> set (concat diagram). a < length store)"

definition stable :: "diagram_store \<Rightarrow> store \<Rightarrow> store \<Rightarrow> bool" where
  "stable diagram store store' \<longleftrightarrow>
     length store' = length store
     \<and> (\<forall>a. a \<notin> set (concat diagram) \<longrightarrow> store' ! a = store ! a)"

definition same_refs ::
  "diagram_store \<Rightarrow> nat \<Rightarrow> store \<Rightarrow> neighborhood_store \<Rightarrow> neighborhood_refs \<Rightarrow> bool" where
  "same_refs diagram t store nb refs \<longleftrightarrow>
     (\<forall>i. case refs i of
            None \<Rightarrow> nb i = None
          | Some NewSet \<Rightarrow>
              (\<exists>a. nb i = Some a \<and> a < length store \<and> a \<notin> set (concat diagram) \<and> store ! a = {})
          | Some (CellSet j) \<Rightarrow> j < length (diagram ! t) \<and> nb i = Some (diagram ! t ! j))"

section \<open>Properties of clauses and of the condition parser\<close>

subsection \<open>What a neighbourhood holds\<close>

lemma foldl_update_upto:
  "foldl (\<lambda>m i. m(i \<mapsto> g i)) m [a..b] i = (if a \<le> i \<and> i \<le> b then Some (g i) else m i)"
proof (induction a b arbitrary: m rule: upto.induct)
  case (1 a b)
  show ?case
  proof (cases "a \<le> b")
    case True
    then have "[a..b] = a # [a + 1..b]" by (simp add: upto_rec1)
    with True "1.IH"[of "m(a \<mapsto> g a)"] show ?thesis by auto
  next
    case False
    then show ?thesis by auto
  qed
qed

lemma getNeighborhood_apply:
  "getNeighborhood this c lo hi i =
     (if lo \<le> i \<and> i \<le> hi then
        Some (if int c + i < 0 \<or> int c + i \<ge> int (length (cells this)) then NewSet
              else CellSet (nat (int c + i)))
      else None)"
proof -
  have "getNeighborhood this c lo hi =
          foldl (\<lambda>m i. m(i \<mapsto> (if int c + i < 0 \<or> int c + i \<ge> int (length (cells this)) then NewSet
                                  else CellSet (nat (int c + i)))))
                Map.empty [lo..hi]"
    unfolding getNeighborhood_def
    by (rule arg_cong[where f = "\<lambda>f. foldl f Map.empty [lo..hi]"]) (auto simp: fun_eq_iff)
  then show ?thesis by (simp add: foldl_update_upto)
qed

lemma contents_getNeighborhood:
  "contents this (getNeighborhood this c lo hi) i =
     (if lo \<le> i \<and> i \<le> hi then
        Some (if 0 \<le> int c + i \<and> int c + i < int (length (cells this))
              then cells this ! nat (int c + i) else {})
      else None)"
  by (auto simp: contents_def getNeighborhood_apply)

subsection \<open>A literal outside the window\<close>

text \<open>
  C5. Evaluating a Literal whose position offset is not in the neighbourhood it is given
  is a hard failure: \<^verbatim>\<open>signals[this.position]\<close> is undefined and \<^verbatim>\<open>.has\<close> raises (the
  exception of JavaScript for this is a TypeError). In particular, in the window
  \<open>[lo, hi]\<close> that \<open>getNeighborhood\<close> builds, a position outside \<open>[lo, hi]\<close> raises, and the
  evaluation never answers false as it does for a signal that is absent.
\<close>

theorem literal_outside_window:
  "(signals position = None \<longrightarrow> eval (Literal s position timeStep) signals = Inl TypeError)
   \<and> (\<not> (lo \<le> position \<and> position \<le> hi) \<longrightarrow>
        eval (Literal s position timeStep) (contents config (getNeighborhood config c lo hi))
          = Inl TypeError
        \<and> eval (Literal s position timeStep) (contents config (getNeighborhood config c lo hi))
          \<noteq> Inr False)"
  by (simp add: contents_getNeighborhood)

theorem literal_outside_window_witness:
  "eval (Literal ''A'' 1 0) (Map.empty(0 \<mapsto> {''A''})) = Inl TypeError
   \<and> eval (Literal ''A'' 1 0)
        (contents \<lparr>cells = [{''A''}, {''A''}]\<rparr>
           (getNeighborhood \<lparr>cells = [{''A''}, {''A''}]\<rparr> 0 0 0)) = Inl TypeError"
  using literal_outside_window
          [of "Map.empty(0 \<mapsto> {''A''})" 1 "''A''" 0 0 0 "\<lparr>cells = [{''A''}, {''A''}]\<rparr>" 0]
  by simp

subsection \<open>What the readers return\<close>








text \<open>No reader returns a Negation of a Negation, in either version.\<close>

lemma new_Conjunction_loop_no_double_negation:
  "list_all no_double_negation acc \<Longrightarrow> list_all no_double_negation cs \<Longrightarrow>
     list_all no_double_negation (new_Conjunction_loop acc cs)"
  by (induction acc cs rule: new_Conjunction_loop.induct) simp_all

lemma new_Disjunction_loop_no_double_negation:
  "(case own of Some xs \<Rightarrow> list_all no_double_negation xs | None \<Rightarrow> True) \<Longrightarrow>
     list_all no_double_negation visited \<Longrightarrow> list_all no_double_negation todo \<Longrightarrow>
     list_all no_double_negation (new_Disjunction_loop own visited todo)"
proof (induction own visited todo rule: new_Disjunction_loop.induct)
  case (1 own visited)
  then show ?case by (simp split: option.splits)
next
  case (2 own visited subclause todo)
  then show ?case
    by (cases subclause; cases own) simp_all
qed

lemma group_no_double_negation:
  assumes "list_all no_double_negation cs"
  shows "no_double_negation (if length cs = 1 then cs ! 0 else new_Conjunction cs)"
    and "no_double_negation (if length cs = 1 then cs ! 0 else new_Disjunction cs)"
    and "no_double_negation
           (if length cs = 0 then Negation Clause
            else if length cs = 1 then cs ! 0 else new_Disjunction cs)"
    and "no_double_negation
           (if length cs = 0 then Clause
            else if length cs = 1 then cs ! 0 else new_Conjunction cs)"
proof -
  have one: "length cs = 1 \<Longrightarrow> no_double_negation (cs ! 0)"
    using assms by (cases cs) simp_all
  have c: "no_double_negation (new_Conjunction cs)"
    unfolding new_Conjunction_def
    using new_Conjunction_loop_no_double_negation[of "[]" cs] assms by simp
  have d: "no_double_negation (new_Disjunction cs)"
    unfolding new_Disjunction_def
    using new_Disjunction_loop_no_double_negation[of "Some []" "[]" cs] assms by simp
  from one c d show "no_double_negation (if length cs = 1 then cs ! 0 else new_Conjunction cs)"
    and "no_double_negation (if length cs = 1 then cs ! 0 else new_Disjunction cs)"
    and "no_double_negation
           (if length cs = 0 then Negation Clause
            else if length cs = 1 then cs ! 0 else new_Disjunction cs)"
    and "no_double_negation
           (if length cs = 0 then Clause
            else if length cs = 1 then cs ! 0 else new_Conjunction cs)"
    by simp_all
qed

lemma negate_no_double_negation:
  "no_double_negation c \<Longrightarrow>
     no_double_negation (case c of Negation subclause \<Rightarrow> subclause | _ \<Rightarrow> Negation c)"
  by (cases c) (auto split: clause.splits)

lemma read_no_double_negation:
  "\<forall>c rest. readConditionTokens ts = Inr (c, rest) \<longrightarrow> no_double_negation c"
  "list_all no_double_negation subs \<longrightarrow>
     (\<forall>cs rest. read_subclauses closing subs ts' = Inr (cs, rest) \<longrightarrow>
        list_all no_double_negation cs)"
proof (induction ts and closing subs ts' rule: readConditionTokens_read_subclauses.induct)
  case 1
  show ?case by simp
next
  case (2 token conditionTokens)
  consider (paren) "token = ''(''" | (bracket) "token \<noteq> ''(''" "token = ''[''"
    | (minus) "token \<noteq> ''(''" "token \<noteq> ''[''" "token = ''-''"
    | (plus) "token \<noteq> ''(''" "token \<noteq> ''[''" "token \<noteq> ''-''" "token = ''+''"
    | (name) "token \<noteq> ''(''" "token \<noteq> ''[''" "token \<noteq> ''-''" "token \<noteq> ''+''"
    by blast
  then show ?case
  proof cases
    case paren
    show ?thesis
    proof (cases "read_subclauses '')'' [] conditionTokens")
      case (Inl e)
      with paren show ?thesis by (simp del: read_subclauses.simps)
    next
      case (Inr b)
      obtain cs r where b: "b = (cs, r)" by (cases b)
      from "2.IH"(1)[OF paren] Inr b have "list_all no_double_negation cs" by simp
      with group_no_double_negation(1)[of cs] paren Inr b show ?thesis
        by (auto simp del: read_subclauses.simps)
    qed
  next
    case bracket
    show ?thesis
    proof (cases "read_subclauses '']'' [] conditionTokens")
      case (Inl e)
      with bracket show ?thesis by (simp del: read_subclauses.simps)
    next
      case (Inr b)
      obtain cs r where b: "b = (cs, r)" by (cases b)
      from "2.IH"(2)[OF bracket] Inr b have "list_all no_double_negation cs" by simp
      with group_no_double_negation(2)[of cs] bracket Inr b show ?thesis
        by (auto simp del: read_subclauses.simps)
    qed
  next
    case minus
    show ?thesis
    proof (intro allI impI)
      fix c rest
      assume r: "readConditionTokens (token # conditionTokens) = Inr (c, rest)"
      with minus obtain n where n: "readConditionTokens conditionTokens = Inr (n, rest)"
        and c: "c = (case n of Negation subclause \<Rightarrow> subclause | _ \<Rightarrow> Negation n)"
        by (auto split: sum.splits prod.splits clause.splits)
      from "2.IH"(3)[OF minus] n have "no_double_negation n" by blast
      then show "no_double_negation c" unfolding c by (rule negate_no_double_negation)
    qed
  next
    case plus
    from "2.IH"(4)[OF plus] plus show ?thesis
      by (auto split: sum.splits prod.splits)
  next
    case name
    then show ?thesis by auto
  qed
next
  case (3 closing subclauses)
  show ?case by simp
next
  case (4 closing subclauses token conditionTokens)
  show ?case
  proof (cases "token = closing")
    case True
    then show ?thesis by auto
  next
    case False
    note IH1 = "4.IH"(1)[OF False]
    show ?thesis
    proof (cases "readConditionTokens (token # conditionTokens)")
      case (Inl e)
      have step: "read_subclauses closing subclauses (token # conditionTokens) = Inl e"
        using False Inl by (simp del: readConditionTokens.simps)
      show ?thesis unfolding step by simp
    next
      case (Inr b)
      obtain sub r where b: "b = (sub, r)" by (cases b)
      from IH1 Inr b have sub: "no_double_negation sub" by blast
      have step: "read_subclauses closing subclauses (token # conditionTokens) =
                    read_subclauses closing (subclauses @ [sub]) r"
        using False Inr b by (simp del: readConditionTokens.simps)
      note IH2 = "4.IH"(2)[OF False Inr b[symmetric]]
      show ?thesis
        unfolding step using IH2 sub by simp
    qed
  qed
qed

lemma read_part000_props:
  "(\<forall>c rest. readConditionTokens_part000 L ts = Inr (c, rest) \<longrightarrow>
       no_double_negation c \<and> set rest \<subseteq> set ts)
   \<and> (\<forall>e. readConditionTokens_part000 L ts = Inl e \<longrightarrow> e = TypeError \<or> e = RangeError)"
  "(list_all no_double_negation subs \<longrightarrow>
     (\<forall>cs rest. read_subclauses_part000 L' closing subs ts' = Inr (cs, rest) \<longrightarrow>
        list_all no_double_negation cs))
   \<and> (\<forall>cs rest. read_subclauses_part000 L' closing subs ts' = Inr (cs, rest) \<longrightarrow>
        closing \<in> set ts' \<and> set rest \<subseteq> set ts')
   \<and> (\<forall>e. read_subclauses_part000 L' closing subs ts' = Inl e \<longrightarrow>
        e = TypeError \<or> e = RangeError)"
proof (induction L ts and L' closing subs ts'
       rule: readConditionTokens_part000_read_subclauses_part000.induct)
  case (1 maxLength)
  show ?case by simp
next
  case (2 maxLength token conditionTokens)
  consider (bracket) "token = ''[''" | (paren) "token \<noteq> ''[''" "token = ''(''"
    | (item) "token \<noteq> ''[''" "token \<noteq> ''(''"
    by blast
  then show ?case
  proof cases
    case bracket
    show ?thesis
    proof (cases "read_subclauses_part000 maxLength '']'' [] conditionTokens")
      case (Inl e)
      with "2.IH"(1)[OF bracket] bracket show ?thesis
        by (simp del: read_subclauses_part000.simps)
    next
      case (Inr b)
      obtain cs r where b: "b = (cs, r)" by (cases b)
      from "2.IH"(1)[OF bracket] Inr b
      have "list_all no_double_negation cs" and "set r \<subseteq> set conditionTokens"
        by simp_all
      with group_no_double_negation(3)[of cs] bracket Inr b show ?thesis
        by (auto simp del: read_subclauses_part000.simps)
    qed
  next
    case paren
    show ?thesis
    proof (cases "read_subclauses_part000 maxLength '')'' [] conditionTokens")
      case (Inl e)
      with "2.IH"(2)[OF paren] paren show ?thesis
        by (simp del: read_subclauses_part000.simps)
    next
      case (Inr b)
      obtain cs r where b: "b = (cs, r)" by (cases b)
      from "2.IH"(2)[OF paren] Inr b
      have "list_all no_double_negation cs" and "set r \<subseteq> set conditionTokens"
        by simp_all
      with group_no_double_negation(4)[of cs] paren Inr b show ?thesis
        by (auto simp del: read_subclauses_part000.simps)
    qed
  next
    case item
    then show ?thesis
      by (auto simp: Let_def simp del: exec.simps split: option.splits prod.splits)
  qed
next
  case (3 maxLength closing subclauses)
  have r: "readConditionTokens_part000 maxLength [] = Inr (Clause, [])" by simp
  show ?case
  proof (cases "int (length subclauses) \<ge> maxLength")
    case True
    then show ?thesis by simp
  next
    case False
    have step: "read_subclauses_part000 maxLength closing subclauses [] =
                  read_subclauses_part000 maxLength closing (subclauses @ [Clause]) []"
      using False by simp
    from "3.IH"(2)[OF r refl False] show ?thesis
      unfolding step by simp
  qed
next
  case (4 maxLength closing subclauses token conditionTokens)
  show ?case
  proof (cases "token = closing")
    case True
    then show ?thesis by auto
  next
    case False
    note IH1 = "4.IH"(1)[OF False]
    show ?thesis
    proof (cases "readConditionTokens_part000 maxLength (token # conditionTokens)")
      case (Inl e)
      have step: "read_subclauses_part000 maxLength closing subclauses (token # conditionTokens)
                    = Inl e"
        using False Inl by (simp del: readConditionTokens_part000.simps)
      from IH1 Inl show ?thesis unfolding step by simp
    next
      case (Inr b)
      obtain sub r where b: "b = (sub, r)" by (cases b)
      from IH1 Inr b have sub: "no_double_negation sub"
        and r: "set r \<subseteq> set (token # conditionTokens)" by blast+
      show ?thesis
      proof (cases "int (length subclauses) \<ge> maxLength")
        case True
        have step: "read_subclauses_part000 maxLength closing subclauses (token # conditionTokens)
                      = Inl RangeError"
          using False Inr b True by (simp del: readConditionTokens_part000.simps)
        show ?thesis unfolding step by simp
      next
        case full: False
        have step: "read_subclauses_part000 maxLength closing subclauses (token # conditionTokens)
                      = read_subclauses_part000 maxLength closing (subclauses @ [sub]) r"
          using False Inr b full by (simp del: readConditionTokens_part000.simps)
        note IH2 = "4.IH"(2)[OF False Inr b[symmetric] full]
        from IH2 sub
        have a: "list_all no_double_negation subclauses \<longrightarrow>
                   (\<forall>cs rest. read_subclauses_part000 maxLength closing (subclauses @ [sub]) r
                       = Inr (cs, rest) \<longrightarrow> list_all no_double_negation cs)"
          by simp
        from IH2 r
        have c: "\<forall>cs rest. read_subclauses_part000 maxLength closing (subclauses @ [sub]) r
                   = Inr (cs, rest) \<longrightarrow>
                   closing \<in> set (token # conditionTokens) \<and> set rest \<subseteq> set (token # conditionTokens)"
          by blast
        from IH2
        have e: "\<forall>e. read_subclauses_part000 maxLength closing (subclauses @ [sub]) r = Inl e
                   \<longrightarrow> e = TypeError \<or> e = RangeError"
          by blast
        from a c e show ?thesis unfolding step by blast
      qed
    qed
  qed
qed

text \<open>At the end of the tokens, with a group open.\<close>

lemma read_subclauses_part000_no_token:
  "read_subclauses_part000 maxLength closing subs [] = Inl RangeError"
proof (induction "nat (maxLength - int (length subs))" arbitrary: subs)
  case 0
  then show ?case by simp
next
  case (Suc n)
  then have "n = nat (maxLength - int (length (subs @ [Clause])))"
    and "\<not> int (length subs) \<ge> maxLength"
    by simp_all
  with Suc.hyps(1)[of "subs @ [Clause]"] show ?case by simp
qed




lemma part000_name:
  "readConditionTokens_part000 maxLength (''A'' # ts) = Inr (Literal ''A'' 0 0, ts)"
  "readConditionTokens_part000 maxLength (''-A'' # ts) = Inr (Negation (Literal ''A'' 0 0), ts)"
  "readConditionTokens_part000 maxLength (''-'' # ts) = Inl TypeError"
proof -
  have 1: "exec conditionItemRE ''A'' = Some (None, None, None, ''A'')"
    by code_simp
  have 2: "exec conditionItemRE ''-A'' = Some (None, None, Some ''-'', ''A'')"
    by code_simp
  have 3: "exec conditionItemRE ''-'' = None"
    by code_simp
  have 0: "parseInt (or_default None ''0'') = 0" by code_simp
  show "readConditionTokens_part000 maxLength (''A'' # ts) = Inr (Literal ''A'' 0 0, ts)"
    by (simp add: 0 1 Let_def del: exec.simps)
  show "readConditionTokens_part000 maxLength (''-A'' # ts) = Inr (Negation (Literal ''A'' 0 0), ts)"
    by (simp add: 0 2 Let_def del: exec.simps)
  show "readConditionTokens_part000 maxLength (''-'' # ts) = Inl TypeError"
    by (simp add: 3 del: exec.simps)
qed

lemma part000_never_closed_example:
  "parseCondition_part000 maxLength ''(A'' = Inl RangeError"
proof -
  have tokens: "map snd (match_all conditionTokensRE ''(A'') = [''('', ''A'']"
    by code_simp
  have "read_subclauses_part000 maxLength '')'' [] [''A''] = Inl RangeError"
    by (simp add: part000_name read_subclauses_part000_no_token
             del: readConditionTokens_part000.simps read_subclauses_part000.simps(1))
  then have "readConditionTokens_part000 maxLength [''('', ''A''] = Inl RangeError"
    by (simp del: read_subclauses_part000.simps)
  with tokens show ?thesis by (simp add: parseCondition_part000_def del: match_all.simps)
qed

lemma part000_sign_in_item:
  "map snd (match_all conditionTokensRE ''- -A'') = [''-A'']"
  "parseCondition_part000 maxLength ''- -A'' = Inr (Negation (Literal ''A'' 0 0))"
  "parseCondition_part000 maxLength ''--A'' = Inr (Negation (Literal ''A'' 0 0))"
proof -
  show 1: "map snd (match_all conditionTokensRE ''- -A'') = [''-A'']" by code_simp
  have 2: "map snd (match_all conditionTokensRE ''--A'') = [''-A'']" by code_simp
  show "parseCondition_part000 maxLength ''- -A'' = Inr (Negation (Literal ''A'' 0 0))"
    by (simp add: parseCondition_part000_def 1 part000_name
             del: readConditionTokens_part000.simps match_all.simps)
  show "parseCondition_part000 maxLength ''--A'' = Inr (Negation (Literal ''A'' 0 0))"
    by (simp add: parseCondition_part000_def 2 part000_name
             del: readConditionTokens_part000.simps match_all.simps)
qed


subsection \<open>Groups\<close>






subsection \<open>Negation of a negation\<close>

text \<open>
  C8, as the code has it. In src/lib/automata/Automaton.ts, when the token \<^verbatim>\<open>-\<close> is read and
  the clause read after it is itself a Negation, the result is the subclause of that
  Negation: the two negations cancel when the clause is built (over any other clause a
  Negation is built). So the tokens \<^verbatim>\<open>-\<close>, \<^verbatim>\<open>-\<close>, \<open>name\<close> give the bare literal.
  The second version has no token for a sign alone: there a token \<^verbatim>\<open>-\<close> is no item and
  raises a TypeError, and no Negation is built over a clause that was read.
  In both versions no clause the reader returns holds a Negation whose subclause is a
  Negation, so that \<^verbatim>\<open>eval\<close> never meets one in a condition that was parsed.
\<close>

theorem double_negation_cancels:
  "(readConditionTokens conditionTokens = Inr (Negation subclause, rest) \<longrightarrow>
      readConditionTokens (''-'' # conditionTokens) = Inr (subclause, rest))
   \<and> (readConditionTokens conditionTokens = Inr (negated, rest)
        \<and> (\<forall>sub. negated \<noteq> Negation sub) \<longrightarrow>
      readConditionTokens (''-'' # conditionTokens) = Inr (Negation negated, rest))
   \<and> (name \<notin> {''('', ''['', ''-'', ''+''} \<longrightarrow>
      readConditionTokens [''-'', ''-'', name] = Inr (Literal name 0 0, []))
   \<and> (readConditionTokens conditionTokens = Inr (parsed, rest) \<longrightarrow>
      no_double_negation parsed)
   \<and> readConditionTokens_part000 maxLength (''-'' # conditionTokens) = Inl TypeError
   \<and> (readConditionTokens_part000 maxLength conditionTokens = Inr (parsed, rest) \<longrightarrow>
      no_double_negation parsed)"
proof (intro conjI impI)
  show "readConditionTokens (''-'' # conditionTokens) = Inr (subclause, rest)"
    if "readConditionTokens conditionTokens = Inr (Negation subclause, rest)"
    using that by simp
  show "readConditionTokens (''-'' # conditionTokens) = Inr (Negation negated, rest)"
    if "readConditionTokens conditionTokens = Inr (negated, rest)
        \<and> (\<forall>sub. negated \<noteq> Negation sub)"
    using that by (auto split: clause.splits)
  show "readConditionTokens [''-'', ''-'', name] = Inr (Literal name 0 0, [])"
    if "name \<notin> {''('', ''['', ''-'', ''+''}"
    using that by simp
  show "no_double_negation parsed"
    if "readConditionTokens conditionTokens = Inr (parsed, rest)"
    using that read_no_double_negation(1)[of conditionTokens] by blast
  show "readConditionTokens_part000 maxLength (''-'' # conditionTokens) = Inl TypeError"
    by (rule part000_name)
  show "no_double_negation parsed"
    if "readConditionTokens_part000 maxLength conditionTokens = Inr (parsed, rest)"
    using that read_part000_props(1)[of maxLength conditionTokens] by blast
qed


theorem double_negation_cancels_witness:
  "readConditionTokens [''-'', ''-'', ''A''] = Inr (Literal ''A'' 0 0, [])
   \<and> readConditionTokens [''-'', ''A''] = Inr (Negation (Literal ''A'' 0 0), [])
   \<and> parseCondition ''- -A'' = Inr (Literal ''A'' 0 0)
   \<and> no_double_negation (Negation (Literal ''A'' 0 0))
   \<and> readConditionTokens_part000 4294967295 [''-'', ''-'', ''A''] = Inl TypeError"
proof -
  have 1: "readConditionTokens [''A''] = Inr (Literal ''A'' 0 0, [])" by simp
  have 2: "readConditionTokens [''-'', ''A''] = Inr (Negation (Literal ''A'' 0 0), [])"
    using double_negation_cancels[where conditionTokens = "[''A'']"
            and negated = "Literal ''A'' 0 0" and rest = "[]"] 1
    by simp
  have 3: "readConditionTokens [''-'', ''-'', ''A''] = Inr (Literal ''A'' 0 0, [])"
    using double_negation_cancels[where conditionTokens = "[''-'', ''A'']"
            and subclause = "Literal ''A'' 0 0" and rest = "[]"] 2
    by simp
  have 4: "map snd (match_all tokenRE_condition ''- -A'') = [''-'', ''-'', ''A'']" by code_simp
  have 5: "parseCondition ''- -A'' = Inr (Literal ''A'' 0 0)"
    using 3 4 by (simp add: parseCondition_def del: match_all.simps readConditionTokens.simps)
  have p: "readConditionTokens_part000 4294967295 [''-A''] = Inr (Negation (Literal ''A'' 0 0), [])"
    by (rule part000_name)
  have 6: "no_double_negation (Negation (Literal ''A'' 0 0))"
    using double_negation_cancels[where conditionTokens = "[''-A'']" and maxLength = 4294967295
            and parsed = "Negation (Literal ''A'' 0 0)" and rest = "[]"] p
    by blast
  have 7: "readConditionTokens_part000 4294967295 [''-'', ''-'', ''A''] = Inl TypeError"
    using double_negation_cancels[where conditionTokens = "[''-'', ''A'']"
            and maxLength = 4294967295]
    by blast
  have 8: "readConditionTokens [''-'', ''-'', ''A''] = Inr (Literal ''A'' 0 0, [])"
    using double_negation_cancels[where name = "''A''"] by simp
  have 9: "no_double_negation (Negation (Literal ''A'' 0 0))"
    using double_negation_cancels[where conditionTokens = "[''-'', ''A'']"
            and parsed = "Negation (Literal ''A'' 0 0)" and rest = "[]"] 2
    by blast
  from 2 3 5 6 7 8 9 show ?thesis by blast
qed


text \<open>
  The claim as the spec has it fails on the second version, which it names too. In a
  condition text the sign is part of the item: \<^verbatim>\<open>- -A\<close> and \<^verbatim>\<open>--A\<close> hold the one token
  \<^verbatim>\<open>-A\<close> and parse to the Negation of the literal, not to the bare literal; and the
  condition tokens \<^verbatim>\<open>-\<close>, \<^verbatim>\<open>-\<close>, \<^verbatim>\<open>A\<close> are not parsed at all.
\<close>

theorem part000_double_negation_counterexample:
  "parseCondition_part000 4294967295 ''- -A'' = Inr (Negation (Literal ''A'' 0 0))
   \<and> parseCondition_part000 4294967295 ''--A'' = Inr (Negation (Literal ''A'' 0 0))
   \<and> readConditionTokens_part000 4294967295 [''-'', ''-'', ''A''] = Inl TypeError"
  using part000_sign_in_item(2,3)[of 4294967295] part000_name(3)[of 4294967295 "[''-'', ''A'']"]
  by blast

subsection \<open>Flattening\<close>

text \<open>
  What holds of C7: \<^verbatim>\<open>new Conjunction\<close> puts the subclauses of every argument that is a
  Conjunction in its place, in order, and keeps the other arguments; when no argument that
  is a Conjunction has a Conjunction among its own subclauses, the result has none.
\<close>

lemma new_Conjunction_loop_eq:
  "new_Conjunction_loop acc subclauses =
     acc @ concat (map (\<lambda>c. case c of Conjunction cs \<Rightarrow> cs | _ \<Rightarrow> [c]) subclauses)"
  by (induction acc subclauses rule: new_Conjunction_loop.induct) auto

lemma new_Conjunction_flat:
  assumes "\<And>cs d. Conjunction cs \<in> set subclauses \<Longrightarrow> d \<in> set cs \<Longrightarrow> \<forall>ds. d \<noteq> Conjunction ds"
    and "new_Conjunction subclauses = Conjunction result"
  shows "\<forall>d \<in> set result. \<forall>ds. d \<noteq> Conjunction ds"
proof -
  from assms(2) have "result = concat (map (\<lambda>c. case c of Conjunction cs \<Rightarrow> cs | _ \<Rightarrow> [c]) subclauses)"
    by (simp add: new_Conjunction_def new_Conjunction_loop_eq)
  with assms(1) show ?thesis
    by (auto split: clause.splits)
qed

text \<open>
  C7 fails for Disjunction. The \<^verbatim>\<open>else\<close> branch of its constructor assigns the argument
  array where the one of Conjunction pushes the subclause. So
  \<^verbatim>\<open>new Disjunction([A, new Disjunction([B, C])])\<close> has the subclauses \<open>A\<close>, the nested
  Disjunction itself, \<open>B\<close> and \<open>C\<close>; with the nested Disjunction first, nothing is
  flattened; and the condition \<^verbatim>\<open>[A [B C]]\<close> is parsed to the former.
\<close>

theorem new_Disjunction_keeps_nested:
  "new_Disjunction [Literal ''A'' 0 0, new_Disjunction [Literal ''B'' 0 0, Literal ''C'' 0 0]] =
     Disjunction [Literal ''A'' 0 0, Disjunction [Literal ''B'' 0 0, Literal ''C'' 0 0],
                  Literal ''B'' 0 0, Literal ''C'' 0 0]
   \<and> new_Disjunction [new_Disjunction [Literal ''B'' 0 0, Literal ''C'' 0 0], Literal ''A'' 0 0] =
     Disjunction [Disjunction [Literal ''B'' 0 0, Literal ''C'' 0 0], Literal ''A'' 0 0]
   \<and> parseCondition ''[A [B C]]'' =
     Inr (Disjunction [Literal ''A'' 0 0, Disjunction [Literal ''B'' 0 0, Literal ''C'' 0 0],
                       Literal ''B'' 0 0, Literal ''C'' 0 0])"
  by code_simp

section \<open>Properties of the simulation\<close>

subsection \<open>Cells only grow, and the shape stays\<close>

lemma widths_length [simp]: "length (widths d) = length d"
  by (simp add: widths_def)

lemma widths_nth: "k < length d \<Longrightarrow> widths d ! k = length (cells (d ! k))"
  by (simp add: widths_def)

lemma grows_refl: "grows d d"
  by (simp add: grows_def)

lemma grows_length: "grows d d' \<Longrightarrow> length d' = length d"
  unfolding grows_def by (metis widths_length)

lemma grows_width: "grows d d' \<Longrightarrow> k < length d \<Longrightarrow> length (cells (d' ! k)) = length (cells (d ! k))"
  unfolding grows_def by (metis widths_nth widths_length)

lemma grows_trans: "grows d d' \<Longrightarrow> grows d' d'' \<Longrightarrow> grows d d''"
proof -
  assume a: "grows d d'" and b: "grows d' d''"
  have w: "widths d'' = widths d" using a b by (simp add: grows_def)
  have "cells (d ! k) ! j \<subseteq> cells (d'' ! k) ! j" if k: "k < length d" and j: "j < length (cells (d ! k))" for k j
  proof -
    have 1: "cells (d ! k) ! j \<subseteq> cells (d' ! k) ! j" using a k j by (simp add: grows_def)
    have k': "k < length d'" using grows_length[OF a] k by simp
    have j': "j < length (cells (d' ! k))" using grows_width[OF a k] j by simp
    have 2: "cells (d' ! k) ! j \<subseteq> cells (d'' ! k) ! j" using b k' j' by (simp add: grows_def)
    from 1 2 show ?thesis by blast
  qed
  with w show ?thesis by (simp add: grows_def)
qed

lemma grows_mem:
  "grows d d' \<Longrightarrow> k < length d \<Longrightarrow> j < length (cells (d ! k)) \<Longrightarrow> s \<in> cells (d ! k) ! j
     \<Longrightarrow> s \<in> cells (d' ! k) ! j"
  unfolding grows_def by blast

text \<open>One write.\<close>

lemma write_grows:
  assumes "k < length d" "j < length (cells (d ! k))"
  shows "grows d (d[k := (d ! k)\<lparr>cells := (cells (d ! k))[j := insert s (cells (d ! k) ! j)]\<rparr>])"
proof -
  let ?d' = "d[k := (d ! k)\<lparr>cells := (cells (d ! k))[j := insert s (cells (d ! k) ! j)]\<rparr>]"
  have "widths ?d' = widths d"
    using assms by (simp add: widths_def map_update list_update_same_conv)
  moreover have "cells (d ! k') ! j' \<subseteq> cells (?d' ! k') ! j'"
    if "k' < length d" "j' < length (cells (d ! k'))" for k' j'
    using that assms by (cases "k' = k"; cases "j' = j") auto
  ultimately show ?thesis by (simp add: grows_def)
qed

lemma applyOutput_grows:
  "applyOutput N t c d out = Inr d' \<Longrightarrow> grows d d'"
  unfolding applyOutput_def Let_def
  by (auto split: if_splits simp: grows_refl intro!: write_grows)

lemma forEach_output_grows:
  "forEach_output N t c outs d = Inr d' \<Longrightarrow> grows d d'"
proof (induction outs arbitrary: d)
  case Nil
  then show ?case by (simp add: grows_refl)
next
  case (Cons out outs)
  then show ?case
    by (auto split: sum.splits intro: grows_trans applyOutput_grows)
qed

lemma for_rules_grows:
  "for_rules N t c nb rs d = Inr d' \<Longrightarrow> grows d d'"
proof (induction rs arbitrary: d)
  case Nil
  then show ?case by (simp add: grows_refl)
next
  case (Cons r rs)
  then show ?case
    by (auto split: sum.splits if_splits intro: grows_trans forEach_output_grows)
qed

lemma cell_step_grows:
  "cell_step A N t c d = Inr d' \<Longrightarrow> grows d d'"
  unfolding cell_step_def Let_def by (rule for_rules_grows)

lemma for_cells_grows:
  "for_cells A N t cs d = Inr d' \<Longrightarrow> grows d d'"
proof (induction cs arbitrary: d)
  case Nil
  then show ?case by (simp add: grows_refl)
next
  case (Cons c cs)
  then show ?case
    by (auto split: sum.splits intro: grows_trans cell_step_grows)
qed


lemma all_width_nth: "all_width N d \<Longrightarrow> k < length d \<Longrightarrow> length (cells (d ! k)) = N"
  unfolding all_width_def by (metis nth_replicate widths_nth)

lemma all_width_grows: "all_width N d \<Longrightarrow> grows d d' \<Longrightarrow> all_width N d'"
  unfolding all_width_def grows_def by (metis widths_length)

lemma all_width_iff: "all_width N d \<longleftrightarrow> (\<forall>config \<in> set d. length (cells config) = N)"
  unfolding all_width_def widths_def by (induction d) auto

subsection \<open>When the simulation returns\<close>

lemma eval_returns:
  "(\<And>p. p \<in> set (positions c) \<Longrightarrow> signals p \<noteq> None) \<Longrightarrow> \<exists>b. eval c signals = Inr b"
  "(\<And>p. p \<in> set (concat (map positions cs)) \<Longrightarrow> signals p \<noteq> None) \<Longrightarrow> \<exists>b. every cs signals = Inr b"
  "(\<And>p. p \<in> set (concat (map positions cs')) \<Longrightarrow> signals p \<noteq> None) \<Longrightarrow> \<exists>b. some cs' signals = Inr b"
proof (induction c signals and cs signals and cs' signals rule: eval_every_some.induct)
  case (1 signals)
  show ?case by auto
next
  case (2 subclause signals)
  then obtain b where "eval subclause signals = Inr b" by auto
  then show ?case by auto
next
  case (3 subclauses signals)
  then show ?case by auto
next
  case (4 subclauses signals)
  then show ?case by auto
next
  case (5 s position timeStep signals)
  then show ?case by auto
next
  case (6 signals)
  show ?case by auto
next
  case (7 subclause rest signals)
  from 7 obtain b where b: "eval subclause signals = Inr b" by auto
  show ?case
  proof (cases b)
    case True
    with 7 b show ?thesis by auto
  next
    case False
    with b show ?thesis by auto
  qed
next
  case (8 signals)
  show ?case by auto
next
  case (9 subclause rest signals)
  from 9 obtain b where b: "eval subclause signals = Inr b" by auto
  show ?case
  proof (cases b)
    case True
    with b show ?thesis by auto
  next
    case False
    with 9 b show ?thesis by auto
  qed
qed



lemma getNeighborhood_refs_within:
  "refs_within (length (cells config)) lo hi (getNeighborhood config c lo hi)"
  by (auto simp: refs_within_def getNeighborhood_apply)

lemma contents_defined:
  assumes "refs_within N lo hi nb" "length (cells config) = N" "lo \<le> p" "p \<le> hi"
  shows "contents config nb p \<noteq> None"
proof -
  from assms obtain r where r: "nb p = Some r" "\<forall>j. r = CellSet j \<longrightarrow> j < N"
    unfolding refs_within_def by blast
  then show ?thesis using assms(2) by (cases r) (auto simp: contents_def)
qed





lemma initial_all_width:
  "all_width (getSize initial) (initial # replicate n (Configuration (getSize initial)))"
  by (simp add: all_width_def widths_def getSize_def Configuration_def)


subsection \<open>No rule, and index 0\<close>









subsection \<open>No step\<close>

text \<open>
  C10. For every automaton, whatever its rules, and every initial configuration,
  \<^verbatim>\<open>makeDiagram(initial, 0)\<close> returns the sequence of one element, the input configuration,
  with every cell holding the signals it held: with no step asked for, neither loop is
  entered, no rule is evaluated and nothing is written.
\<close>

theorem makeDiagram_no_step:
  "makeDiagram this initialConfiguration 0 = Inr [initialConfiguration]"
  by (simp add: makeDiagram_def)

subsection \<open>The shape of the diagram\<close>




subsection \<open>Outputs off the diagram\<close>

lemma applyOutput_dropped:
  "int c + neighbor out < 0 \<or> int N \<le> int c + neighbor out \<or> int (length d) \<le> int t + futureStep out
     \<Longrightarrow> applyOutput N t c d out = Inr d"
  unfolding applyOutput_def Let_def by auto

lemma forEach_output_dropped:
  "\<forall>out \<in> set outs. int c + neighbor out < 0 \<or> int N \<le> int c + neighbor out
       \<or> int (length d) \<le> int t + futureStep out
     \<Longrightarrow> forEach_output N t c outs d = Inr d"
  by (induction outs) (simp_all add: applyOutput_dropped)

lemma for_rules_dropped:
  assumes "all_width N d" "t < length d" "refs_within N lo hi nb"
    and "\<forall>rule \<in> set rs. \<forall>p \<in> set (positions (condition rule)). lo \<le> p \<and> p \<le> hi"
    and "\<forall>rule \<in> set rs. \<forall>out \<in> set (outputs rule).
           int c + neighbor out < 0 \<or> int N \<le> int c + neighbor out
           \<or> int (length d) \<le> int t + futureStep out"
  shows "for_rules N t c nb rs d = Inr d"
  using assms(4,5)
proof (induction rs)
  case Nil
  show ?case by simp
next
  case (Cons rule rs)
  have w: "length (cells (d ! t)) = N" using all_width_nth[OF assms(1,2)] .
  have "\<And>p. p \<in> set (positions (condition rule)) \<Longrightarrow> contents (d ! t) nb p \<noteq> None"
    using contents_defined[OF assms(3) w] Cons.prems(1) by auto
  from eval_returns(1)[of "condition rule" "contents (d ! t) nb", OF this]
  obtain fires where fires: "eval (condition rule) (contents (d ! t) nb) = Inr fires" by auto
  have out: "forEach_output N t c (outputs rule) d = Inr d"
    using forEach_output_dropped[of "outputs rule" c N d t] Cons.prems(2) by simp
  have "for_rules N t c nb rs d = Inr d"
    using Cons.IH Cons.prems by simp
  with fires out show ?case by simp
qed

lemma for_cells_dropped:
  assumes "all_width N d" "t < length d"
    and "\<forall>rule \<in> set (rules A). \<forall>p \<in> set (positions (condition rule)).
           minNeighbor A \<le> p \<and> p \<le> maxNeighbor A"
    and "\<forall>rule \<in> set (rules A). \<forall>out \<in> set (outputs rule).
           neighbor out \<le> - int N \<or> int N \<le> neighbor out \<or> int (length d) \<le> futureStep out"
    and "\<forall>c \<in> set cs. c < N"
  shows "for_cells A N t cs d = Inr d"
  using assms(5)
proof (induction cs)
  case Nil
  show ?case by simp
next
  case (Cons c cs)
  have w: "length (cells (d ! t)) = N" using all_width_nth[OF assms(1,2)] .
  have r: "refs_within N (minNeighbor A) (maxNeighbor A)
             (getNeighborhood (d ! t) c (minNeighbor A) (maxNeighbor A))"
    using getNeighborhood_refs_within[of "d ! t"] w by simp
  have c: "c < N" using Cons.prems by simp
  have "\<forall>rule \<in> set (rules A). \<forall>out \<in> set (outputs rule).
           int c + neighbor out < 0 \<or> int N \<le> int c + neighbor out
           \<or> int (length d) \<le> int t + futureStep out"
    using assms(4) c by fastforce
  from for_rules_dropped[OF assms(1,2) r assms(3) this]
  have "cell_step A N t c d = Inr d" by (simp add: cell_step_def)
  with Cons show ?case by simp
qed

lemma for_steps_dropped:
  assumes "all_width N d"
    and "\<forall>rule \<in> set (rules A). \<forall>p \<in> set (positions (condition rule)).
           minNeighbor A \<le> p \<and> p \<le> maxNeighbor A"
    and "\<forall>rule \<in> set (rules A). \<forall>out \<in> set (outputs rule).
           neighbor out \<le> - int N \<or> int N \<le> neighbor out \<or> int (length d) \<le> futureStep out"
    and "\<forall>t \<in> set ts. t < length d"
  shows "for_steps A N ts d = Inr d"
  using assms(4)
proof (induction ts)
  case Nil
  show ?case by simp
next
  case (Cons t ts)
  have "for_cells A N t [0..<N] d = Inr d"
    using for_cells_dropped[OF assms(1) _ assms(2,3), of t "[0..<N]"] Cons.prems by simp
  with Cons show ?case by simp
qed

text \<open>
  C4, as the code has it. An output whose target cell \<open>c + neighbor\<close> is outside \<open>[0, N)\<close>,
  or whose target time \<open>t + futureStep\<close> is at or beyond the end of the diagram, is dropped:
  the diagram is returned as it was and nothing is raised; so it is at cell 0 for an output
  to the neighbour \<open>-1\<close>. For a whole run: when every literal reads inside the window and
  every output of every rule misses the diagram from every cell (its neighbour offset is
  at least the width away, or its step is beyond the last one), \<^verbatim>\<open>makeDiagram\<close> returns the
  input followed by empty configurations, whatever rules fire.
\<close>

theorem dropped_output:
  "(int c + neighbor out < 0 \<or> int N \<le> int c + neighbor out \<or> int (length d) \<le> int t + futureStep out
      \<longrightarrow> applyOutput N t c d out = Inr d)
   \<and> (neighbor out = - 1 \<longrightarrow> applyOutput N t 0 d out = Inr d)
   \<and> ((\<forall>rule \<in> set (rules this).
          (\<forall>p \<in> set (positions (condition rule)). minNeighbor this \<le> p \<and> p \<le> maxNeighbor this)
          \<and> (\<forall>output \<in> set (outputs rule).
                neighbor output \<le> - int (getSize initial) \<or> int (getSize initial) \<le> neighbor output
                \<or> int nbSteps < futureStep output))
        \<longrightarrow> makeDiagram this initial nbSteps =
              Inr (initial # replicate nbSteps (Configuration (getSize initial))))"
proof (intro conjI impI)
  assume "int c + neighbor out < 0 \<or> int N \<le> int c + neighbor out \<or> int (length d) \<le> int t + futureStep out"
  then show "applyOutput N t c d out = Inr d" by (rule applyOutput_dropped)
next
  assume "neighbor out = - 1"
  then show "applyOutput N t 0 d out = Inr d" by (simp add: applyOutput_dropped)
next
  let ?d = "initial # replicate nbSteps (Configuration (getSize initial))"
  assume a: "\<forall>rule \<in> set (rules this).
          (\<forall>p \<in> set (positions (condition rule)). minNeighbor this \<le> p \<and> p \<le> maxNeighbor this)
          \<and> (\<forall>output \<in> set (outputs rule).
                neighbor output \<le> - int (getSize initial) \<or> int (getSize initial) \<le> neighbor output
                \<or> int nbSteps < futureStep output)"
  then have 1: "\<forall>rule \<in> set (rules this). \<forall>p \<in> set (positions (condition rule)).
           minNeighbor this \<le> p \<and> p \<le> maxNeighbor this"
    by blast
  from a have 2: "\<forall>rule \<in> set (rules this). \<forall>out \<in> set (outputs rule).
           neighbor out \<le> - int (getSize initial) \<or> int (getSize initial) \<le> neighbor out
           \<or> int (length ?d) \<le> futureStep out"
    by fastforce
  have "for_steps this (getSize initial) [0..<nbSteps] ?d = Inr ?d"
    using for_steps_dropped[OF initial_all_width 1 2, of "[0..<nbSteps]"] by simp
  then show "makeDiagram this initial nbSteps = Inr ?d"
    by (simp add: makeDiagram_def)
qed

theorem dropped_output_witness:
  "new_Automaton ''A: -1.B'' =
     Inr \<lparr>rules = [\<lparr>condition = Literal ''A'' 0 0,
                     outputs = [\<lparr>neighbor = - 1, signal = ''B'', futureStep = 1\<rparr>]\<rparr>],
          minNeighbor = 0, maxNeighbor = 0, maxFutureDepth = 1\<rparr>
   \<and> eval (Literal ''A'' 0 0)
        (contents \<lparr>cells = [{''A''}]\<rparr> (getNeighborhood \<lparr>cells = [{''A''}]\<rparr> 0 0 0)) = Inr True
   \<and> applyOutput 1 0 0 [\<lparr>cells = [{''A''}]\<rparr>, \<lparr>cells = [{}]\<rparr>]
        \<lparr>neighbor = - 1, signal = ''B'', futureStep = 1\<rparr>
       = Inr [\<lparr>cells = [{''A''}]\<rparr>, \<lparr>cells = [{}]\<rparr>]
   \<and> makeDiagram
        \<lparr>rules = [\<lparr>condition = Literal ''A'' 0 0,
                   outputs = [\<lparr>neighbor = - 1, signal = ''B'', futureStep = 1\<rparr>]\<rparr>],
         minNeighbor = 0, maxNeighbor = 0, maxFutureDepth = 1\<rparr>
        \<lparr>cells = [{''A''}]\<rparr> 1
       = Inr [\<lparr>cells = [{''A''}]\<rparr>, \<lparr>cells = [{}]\<rparr>]"
proof -
  let ?out = "\<lparr>neighbor = - 1, signal = ''B'', futureStep = 1\<rparr>"
  let ?A = "\<lparr>rules = [\<lparr>condition = Literal ''A'' 0 0, outputs = [?out]\<rparr>],
             minNeighbor = 0, maxNeighbor = 0, maxFutureDepth = 1\<rparr>"
  let ?init = "\<lparr>cells = [{''A''}]\<rparr>"
  note th = dropped_output[of 0 ?out 1 "[?init, \<lparr>cells = [{}]\<rparr>]" 0 ?A ?init 1]
  have 1: "new_Automaton ''A: -1.B'' = Inr ?A" by code_simp
  have 2: "eval (Literal ''A'' 0 0) (contents ?init (getNeighborhood ?init 0 0 0)) = Inr True"
    by (simp add: contents_getNeighborhood)
  from th have 3: "applyOutput 1 0 0 [?init, \<lparr>cells = [{}]\<rparr>] ?out = Inr [?init, \<lparr>cells = [{}]\<rparr>]"
    by simp
  from th have 4: "makeDiagram ?A ?init 1 = Inr [?init, \<lparr>cells = [{}]\<rparr>]"
    by (simp add: getSize_def Configuration_def)
  from 1 2 3 4 show ?thesis by blast
qed

text \<open>
  The claim as the spec has it fails for a target time before the start of the diagram:
  the test of the source bounds the target cell on both sides and the target time only
  by the length, so \<^verbatim>\<open>diagram[-1]\<close> is read and \<^verbatim>\<open>.cells\<close> raises. The rule text
  \<^verbatim>\<open>A: 0/-1.B\<close> (neighbour 0, step \<open>-1\<close>) on one cell holding \<open>A\<close>:
\<close>

theorem negative_target_time_counterexample:
  "new_Automaton ''A: 0/-1.B'' =
     Inr \<lparr>rules = [\<lparr>condition = Literal ''A'' 0 0,
                     outputs = [\<lparr>neighbor = 0, signal = ''B'', futureStep = - 1\<rparr>]\<rparr>],
          minNeighbor = 0, maxNeighbor = 0, maxFutureDepth = 1\<rparr>
   \<and> makeDiagram
        \<lparr>rules = [\<lparr>condition = Literal ''A'' 0 0,
                   outputs = [\<lparr>neighbor = 0, signal = ''B'', futureStep = - 1\<rparr>]\<rparr>],
         minNeighbor = 0, maxNeighbor = 0, maxFutureDepth = 1\<rparr>
        \<lparr>cells = [{''A''}]\<rparr> 1
       = Inl TypeError"
  by code_simp

subsection \<open>The fields of the automaton that are read\<close>

lemma cell_step_fields:
  "rules A = rules B \<Longrightarrow> minNeighbor A = minNeighbor B \<Longrightarrow> maxNeighbor A = maxNeighbor B
     \<Longrightarrow> cell_step A N t c d = cell_step B N t c d"
  by (simp add: cell_step_def)

lemma for_cells_fields:
  "rules A = rules B \<Longrightarrow> minNeighbor A = minNeighbor B \<Longrightarrow> maxNeighbor A = maxNeighbor B
     \<Longrightarrow> for_cells A N t cs d = for_cells B N t cs d"
  by (induction cs arbitrary: d) (simp_all add: cell_step_fields[of A B] split: sum.splits)

lemma for_steps_fields:
  "rules A = rules B \<Longrightarrow> minNeighbor A = minNeighbor B \<Longrightarrow> maxNeighbor A = maxNeighbor B
     \<Longrightarrow> for_steps A N ts d = for_steps B N ts d"
  by (induction ts arbitrary: d) (simp_all add: for_cells_fields[of A B] split: sum.splits)

text \<open>
  \<^verbatim>\<open>makeDiagram\<close> reads the rules and the bounds of the window of the automaton and nothing
  else of it: the field \<open>maxFutureDepth\<close> is not read.
\<close>

lemma makeDiagram_fields:
  assumes "rules A = rules B" "minNeighbor A = minNeighbor B" "maxNeighbor A = maxNeighbor B"
  shows "makeDiagram A initial nbSteps = makeDiagram B initial nbSteps"
  using assms by (simp add: makeDiagram_def for_steps_fields[of A B])

subsection \<open>The store and the diagram of values\<close>

lemma nth_in_concat:
  "k < length xss \<Longrightarrow> j < length (xss ! k) \<Longrightarrow> xss ! k ! j \<in> set (concat xss)"
  by (auto intro!: bexI[of _ "xss ! k"])

lemma distinct_concat_nth:
  "distinct (concat xss) \<Longrightarrow> k < length xss \<Longrightarrow> k' < length xss \<Longrightarrow>
     j < length (xss ! k) \<Longrightarrow> j' < length (xss ! k') \<Longrightarrow>
     xss ! k ! j = xss ! k' ! j' \<Longrightarrow> k = k' \<and> j = j'"
proof (induction xss arbitrary: k k')
  case Nil
  then show ?case by simp
next
  case (Cons xs xss)
  from Cons.prems(1) have d: "distinct xs" "distinct (concat xss)"
    and disj: "set xs \<inter> set (concat xss) = {}"
    by simp_all
  show ?case
  proof (cases k)
    case 0
    show ?thesis
    proof (cases k')
      case 0
      with \<open>k = 0\<close> Cons.prems d show ?thesis
        by (simp add: nth_eq_iff_index_eq)
    next
      case (Suc m)
      from Suc Cons.prems have "xss ! m ! j' \<in> set (concat xss)"
        by (intro nth_in_concat) simp_all
      moreover from Suc \<open>k = 0\<close> Cons.prems have "xss ! m ! j' \<in> set xs"
        by (metis nth_Cons_0 nth_Cons_Suc nth_mem)
      ultimately show ?thesis using disj by blast
    qed
  next
    case (Suc n)
    show ?thesis
    proof (cases k')
      case 0
      from \<open>k = Suc n\<close> Cons.prems have "xss ! n ! j \<in> set (concat xss)"
        by (intro nth_in_concat) simp_all
      moreover from 0 \<open>k = Suc n\<close> Cons.prems have "xss ! n ! j \<in> set xs"
        by (metis nth_Cons_0 nth_Cons_Suc nth_mem)
      ultimately show ?thesis using disj by blast
    next
      case (Suc m)
      with \<open>k = Suc n\<close> Cons.prems Cons.IH[OF d(2), of n m] show ?thesis by simp
    qed
  qed
qed

lemma structure_of_length [simp]: "length (structure_of store diagram) = length diagram"
  by (simp add: structure_of_def)

lemma structure_of_nth:
  "k < length diagram \<Longrightarrow>
     structure_of store diagram ! k = \<lparr>cells = map (\<lambda>a. store ! a) (diagram ! k)\<rparr>"
  by (simp add: structure_of_def)

lemma structure_of_write:
  assumes wf: "well_formed N store diagram" and k: "k < length diagram" and j: "j < N"
  shows "structure_of (store[diagram ! k ! j := v]) diagram =
           (structure_of store diagram)
             [k := \<lparr>cells = (cells (structure_of store diagram ! k))[j := v]\<rparr>]"
proof (rule nth_equalityI)
  show "length (structure_of (store[diagram ! k ! j := v]) diagram) =
        length ((structure_of store diagram)
                  [k := \<lparr>cells = (cells (structure_of store diagram ! k))[j := v]\<rparr>])"
    by simp
next
  fix k'
  assume "k' < length (structure_of (store[diagram ! k ! j := v]) diagram)"
  then have k': "k' < length diagram" by simp
  from wf have rows: "length (diagram ! k) = N" "length (diagram ! k') = N"
    using k k' by (simp_all add: well_formed_def)
  from wf have d: "distinct (concat diagram)" by (simp add: well_formed_def)
  from k j rows have "diagram ! k ! j \<in> set (concat diagram)"
    by (intro nth_in_concat) simp_all
  with wf have a: "diagram ! k ! j < length store"
    unfolding well_formed_def by blast
  have cellseq: "map (\<lambda>a. store[diagram ! k ! j := v] ! a) (diagram ! k') =
          (if k' = k then (map (\<lambda>a. store ! a) (diagram ! k))[j := v]
           else map (\<lambda>a. store ! a) (diagram ! k'))"
  proof (rule nth_equalityI)
    show "length (map (\<lambda>a. store[diagram ! k ! j := v] ! a) (diagram ! k')) =
          length (if k' = k then (map (\<lambda>a. store ! a) (diagram ! k))[j := v]
                  else map (\<lambda>a. store ! a) (diagram ! k'))"
      using rows by simp
  next
    fix j'
    assume "j' < length (map (\<lambda>a. store[diagram ! k ! j := v] ! a) (diagram ! k'))"
    then have j': "j' < N" using rows by simp
    have same: "diagram ! k' ! j' = diagram ! k ! j \<longleftrightarrow> k' = k \<and> j' = j"
      using distinct_concat_nth[OF d k' k, of j' j] rows j j' by auto
    show "map (\<lambda>a. store[diagram ! k ! j := v] ! a) (diagram ! k') ! j' =
          (if k' = k then (map (\<lambda>a. store ! a) (diagram ! k))[j := v]
           else map (\<lambda>a. store ! a) (diagram ! k')) ! j'"
      using rows j j' a same by (auto simp: nth_list_update)
  qed
  show "structure_of (store[diagram ! k ! j := v]) diagram ! k' =
        (structure_of store diagram)
          [k := \<lparr>cells = (cells (structure_of store diagram ! k))[j := v]\<rparr>] ! k'"
    using k k' cellseq by (simp add: structure_of_nth nth_list_update)
qed

lemma well_formed_stable:
  "well_formed N store diagram \<Longrightarrow> length store \<le> length store' \<Longrightarrow>
     well_formed N store' diagram"
  unfolding well_formed_def by (meson less_le_trans)

lemma stable_refl: "stable diagram store store"
  by (simp add: stable_def)

lemma stable_trans:
  "stable diagram s s' \<Longrightarrow> stable diagram s' s'' \<Longrightarrow> stable diagram s s''"
  by (simp add: stable_def)

lemma applyOutput_sim:
  assumes wf: "well_formed N store diagram"
  shows "case applyOutput_store N t c diagram store out of
           Inl e \<Rightarrow> applyOutput N t c (structure_of store diagram) out = Inl e
         | Inr store' \<Rightarrow>
             applyOutput N t c (structure_of store diagram) out = Inr (structure_of store' diagram)
             \<and> stable diagram store store'"
proof (cases "int t + futureStep out < int (length diagram) \<and> 0 \<le> int c + neighbor out
              \<and> int c + neighbor out < int N")
  case False
  then show ?thesis
    by (auto simp: applyOutput_store_def applyOutput_def Let_def stable_refl)
next
  case guard: True
  show ?thesis
  proof (cases "int t + futureStep out < 0")
    case True
    with guard show ?thesis
      by (simp add: applyOutput_store_def applyOutput_def Let_def)
  next
    case False
    define k where "k = nat (int t + futureStep out)"
    define j where "j = nat (int c + neighbor out)"
    from guard False have k: "k < length diagram" and j: "j < N"
      by (simp_all add: k_def j_def nat_less_iff)
    from wf k have row: "length (diagram ! k) = N" by (simp add: well_formed_def)
    from k j row have a2: "diagram ! k ! j \<in> set (concat diagram)"
      by (intro nth_in_concat) simp_all
    with wf have a1: "diagram ! k ! j < length store"
      unfolding well_formed_def by blast
    note a = a1 a2
    have s: "applyOutput_store N t c diagram store out =
               Inr (store[diagram ! k ! j := insert (signal out) (store ! (diagram ! k ! j))])"
      using guard False row j
      by (simp add: applyOutput_store_def Let_def k_def j_def)
    have p: "applyOutput N t c (structure_of store diagram) out =
               Inr ((structure_of store diagram)
                      [k := \<lparr>cells = (cells (structure_of store diagram ! k))
                                       [j := insert (signal out) (store ! (diagram ! k ! j))]\<rparr>])"
      using guard False row j k
      by (simp add: applyOutput_def Let_def k_def[symmetric] j_def[symmetric] structure_of_nth)
    have st: "stable diagram store
                (store[diagram ! k ! j := insert (signal out) (store ! (diagram ! k ! j))])"
      using a by (auto simp: stable_def nth_list_update)
    show ?thesis
      unfolding s p using structure_of_write[OF wf k j] st by simp
  qed
qed

lemma forEach_output_sim:
  "well_formed N store diagram \<Longrightarrow>
     (case forEach_output_store N t c diagram outs store of
        Inl e \<Rightarrow> forEach_output N t c outs (structure_of store diagram) = Inl e
      | Inr store' \<Rightarrow>
          forEach_output N t c outs (structure_of store diagram) = Inr (structure_of store' diagram)
          \<and> stable diagram store store')"
proof (induction outs arbitrary: store)
  case Nil
  show ?case by (simp add: stable_refl)
next
  case (Cons out outs)
  note one = applyOutput_sim[OF Cons.prems, of t c out]
  show ?case
  proof (cases "applyOutput_store N t c diagram store out")
    case (Inl e)
    with one show ?thesis by simp
  next
    case (Inr store1)
    with one have p: "applyOutput N t c (structure_of store diagram) out =
                        Inr (structure_of store1 diagram)"
      and st: "stable diagram store store1"
      by simp_all
    from st have "length store \<le> length store1" by (simp add: stable_def)
    then have wf1: "well_formed N store1 diagram"
      using Cons.prems by (rule well_formed_stable[rotated])
    from Cons.IH[OF wf1] Inr p st show ?thesis
      by (auto split: sum.splits intro: stable_trans)
  qed
qed

lemma contents_same_refs:
  assumes "same_refs diagram t store nb refs" and wf: "well_formed N store diagram"
    and t: "t < length diagram"
  shows "contents_store store nb = contents (structure_of store diagram ! t) refs"
proof (rule ext)
  fix i
  from assms(1) have r: "case refs i of
            None \<Rightarrow> nb i = None
          | Some NewSet \<Rightarrow>
              (\<exists>a. nb i = Some a \<and> a < length store \<and> a \<notin> set (concat diagram) \<and> store ! a = {})
          | Some (CellSet j) \<Rightarrow> j < length (diagram ! t) \<and> nb i = Some (diagram ! t ! j)"
    unfolding same_refs_def by blast
  show "contents_store store nb i = contents (structure_of store diagram ! t) refs i"
  proof (cases "refs i")
    case None
    with r show ?thesis by (simp add: contents_store_def contents_def)
  next
    case (Some ref)
    show ?thesis
    proof (cases ref)
      case NewSet
      with r Some show ?thesis by (auto simp: contents_store_def contents_def)
    next
      case (CellSet j)
      with r Some have j: "j < length (diagram ! t)" and n: "nb i = Some (diagram ! t ! j)"
        by simp_all
      from t j have "diagram ! t ! j \<in> set (concat diagram)" by (rule nth_in_concat)
      with wf have "diagram ! t ! j < length store" unfolding well_formed_def by blast
      with Some CellSet j n t show ?thesis
        by (simp add: contents_store_def contents_def structure_of_nth)
    qed
  qed
qed

lemma same_refs_stable:
  assumes "same_refs diagram t store nb refs" and "stable diagram store store'"
  shows "same_refs diagram t store' nb refs"
  unfolding same_refs_def
proof
  fix i
  from assms(1) have r: "case refs i of
            None \<Rightarrow> nb i = None
          | Some NewSet \<Rightarrow>
              (\<exists>a. nb i = Some a \<and> a < length store \<and> a \<notin> set (concat diagram) \<and> store ! a = {})
          | Some (CellSet j) \<Rightarrow> j < length (diagram ! t) \<and> nb i = Some (diagram ! t ! j)"
    unfolding same_refs_def by blast
  with assms(2)
  show "case refs i of
            None \<Rightarrow> nb i = None
          | Some NewSet \<Rightarrow>
              (\<exists>a. nb i = Some a \<and> a < length store' \<and> a \<notin> set (concat diagram) \<and> store' ! a = {})
          | Some (CellSet j) \<Rightarrow> j < length (diagram ! t) \<and> nb i = Some (diagram ! t ! j)"
    by (auto simp: stable_def split: option.splits setref.splits)
qed

lemma for_rules_sim:
  "well_formed N store diagram \<Longrightarrow> t < length diagram \<Longrightarrow> same_refs diagram t store nb refs \<Longrightarrow>
     (case for_rules_store N t c diagram nb rs store of
        Inl e \<Rightarrow> for_rules N t c refs rs (structure_of store diagram) = Inl e
      | Inr store' \<Rightarrow>
          for_rules N t c refs rs (structure_of store diagram) = Inr (structure_of store' diagram)
          \<and> stable diagram store store')"
proof (induction rs arbitrary: store)
  case Nil
  show ?case by (simp add: stable_refl)
next
  case (Cons rule rs)
  have ev: "eval (condition rule) (contents_store store nb) =
            eval (condition rule) (contents (structure_of store diagram ! t) refs)"
    using contents_same_refs[OF Cons.prems(3,1,2)] by simp
  show ?case
  proof (cases "eval (condition rule) (contents_store store nb)")
    case (Inl e)
    with ev have "eval (condition rule) (contents (structure_of store diagram ! t) refs) = Inl e"
      by simp
    with Inl show ?thesis by simp
  next
    case (Inr fires)
    with ev
    have pev: "eval (condition rule) (contents (structure_of store diagram ! t) refs) = Inr fires"
      by simp
    show ?thesis
    proof (cases fires)
      case False
      with Inr pev Cons.IH[OF Cons.prems] show ?thesis by (simp split: sum.splits)
    next
      case True
      note outs = forEach_output_sim[OF Cons.prems(1), of t c "outputs rule"]
      show ?thesis
      proof (cases "forEach_output_store N t c diagram (outputs rule) store")
        case (Inl e)
        with outs Inr pev True show ?thesis by simp
      next
        case inner: (Inr store1)
        with outs have p: "forEach_output N t c (outputs rule) (structure_of store diagram) =
                             Inr (structure_of store1 diagram)"
          and st: "stable diagram store store1"
          by simp_all
        from st have "length store \<le> length store1" by (simp add: stable_def)
        then have wf1: "well_formed N store1 diagram"
          using Cons.prems(1) by (rule well_formed_stable[rotated])
        from Cons.IH[OF wf1 Cons.prems(2) same_refs_stable[OF Cons.prems(3) st]]
          Inr pev True inner p st
        show ?thesis
          by (auto split: sum.splits intro: stable_trans)
      qed
    qed
  qed
qed

lemma neighborhood_entries:
  "foldl (neighborhood_entry cs c) (s0, nb0) is = (s', nb') \<Longrightarrow>
     (\<exists>m. s' = s0 @ replicate m {})
     \<and> (\<forall>i. i \<notin> set is \<longrightarrow> nb' i = nb0 i)
     \<and> (\<forall>i \<in> set is.
          if int c + i < 0 \<or> int c + i \<ge> int (length cs)
          then (\<exists>a. nb' i = Some a \<and> length s0 \<le> a \<and> a < length s')
          else nb' i = Some (cs ! nat (int c + i)))"
proof (induction "is" arbitrary: s0 nb0)
  case Nil
  then show ?case by (simp add: exI[of _ 0])
next
  case (Cons x xs)
  define off where "off \<longleftrightarrow> int c + x < 0 \<or> int c + x \<ge> int (length cs)"
  define s1 where "s1 = (if off then s0 @ [{}] else s0)"
  define nb1 where "nb1 = (if off then nb0(x \<mapsto> length s0) else nb0(x \<mapsto> cs ! nat (int c + x)))"
  have step: "neighborhood_entry cs c (s0, nb0) x = (s1, nb1)"
    by (auto simp: neighborhood_entry_def new_Set_def s1_def nb1_def off_def)
  from Cons.prems have "foldl (neighborhood_entry cs c) (s1, nb1) xs = (s', nb')"
    by (simp add: step)
  from Cons.IH[OF this] obtain m where m: "s' = s1 @ replicate m {}"
    and keep: "\<forall>i. i \<notin> set xs \<longrightarrow> nb' i = nb1 i"
    and new: "\<forall>i \<in> set xs.
          if int c + i < 0 \<or> int c + i \<ge> int (length cs)
          then (\<exists>a. nb' i = Some a \<and> length s1 \<le> a \<and> a < length s')
          else nb' i = Some (cs ! nat (int c + i))"
    by blast
  have "s' = s0 @ replicate (if off then Suc m else m) {}"
    using m by (simp add: s1_def replicate_app_Cons_same)
  then have 1: "\<exists>m. s' = s0 @ replicate m {}" by blast
  have 2: "\<forall>i. i \<notin> set (x # xs) \<longrightarrow> nb' i = nb0 i"
    using keep by (simp add: nb1_def)
  have le: "length s0 \<le> length s1" by (simp add: s1_def)
  have 3: "\<forall>i \<in> set (x # xs).
          if int c + i < 0 \<or> int c + i \<ge> int (length cs)
          then (\<exists>a. nb' i = Some a \<and> length s0 \<le> a \<and> a < length s')
          else nb' i = Some (cs ! nat (int c + i))"
  proof
    fix i
    assume i: "i \<in> set (x # xs)"
    show "if int c + i < 0 \<or> int c + i \<ge> int (length cs)
          then (\<exists>a. nb' i = Some a \<and> length s0 \<le> a \<and> a < length s')
          else nb' i = Some (cs ! nat (int c + i))"
    proof (cases "i \<in> set xs")
      case True
      with new le show ?thesis by (auto split: if_splits)
    next
      case False
      with i have ix: "i = x" by simp
      from False keep have "nb' i = nb1 i" by simp
      with ix m show ?thesis
        by (auto simp: nb1_def s1_def off_def)
    qed
  qed
  from 1 2 3 show ?case by blast
qed

lemma structure_of_extend:
  assumes "well_formed N store diagram"
  shows "structure_of (store @ more_sets) diagram = structure_of store diagram"
proof -
  have "map (\<lambda>a. (store @ more_sets) ! a) config = map (\<lambda>a. store ! a) config"
    if "config \<in> set diagram" for config
  proof (rule map_cong[OF refl])
    fix a
    assume "a \<in> set config"
    with that have "a \<in> set (concat diagram)" by auto
    with assms have "a < length store" unfolding well_formed_def by blast
    then show "(store @ more_sets) ! a = store ! a" by (simp add: nth_append)
  qed
  then show ?thesis by (simp add: structure_of_def)
qed

lemma getNeighborhood_store_sim:
  assumes wf: "well_formed N store diagram" and t: "t < length diagram"
    and g: "getNeighborhood_store (diagram ! t) c lo hi store = (store', nb)"
  shows "length store \<le> length store'"
    and "structure_of store' diagram = structure_of store diagram"
    and "same_refs diagram t store' nb (getNeighborhood (structure_of store diagram ! t) c lo hi)"
proof -
  from neighborhood_entries[OF g[unfolded getNeighborhood_store_def]]
  obtain m where m: "store' = store @ replicate m {}"
    and out: "\<forall>i. i \<notin> set [lo..hi] \<longrightarrow> nb i = None"
    and inside: "\<forall>i \<in> set [lo..hi].
          if int c + i < 0 \<or> int c + i \<ge> int (length (diagram ! t))
          then (\<exists>a. nb i = Some a \<and> length store \<le> a \<and> a < length store')
          else nb i = Some (diagram ! t ! nat (int c + i))"
    by auto
  from m show "length store \<le> length store'" by simp
  from m structure_of_extend[OF wf]
  show "structure_of store' diagram = structure_of store diagram" by simp
  have len: "length (cells (structure_of store diagram ! t)) = length (diagram ! t)"
    using t by (simp add: structure_of_nth)
  show "same_refs diagram t store' nb (getNeighborhood (structure_of store diagram ! t) c lo hi)"
    unfolding same_refs_def
  proof
    fix i
    show "case getNeighborhood (structure_of store diagram ! t) c lo hi i of
            None \<Rightarrow> nb i = None
          | Some NewSet \<Rightarrow>
              (\<exists>a. nb i = Some a \<and> a < length store' \<and> a \<notin> set (concat diagram)
                   \<and> store' ! a = {})
          | Some (CellSet j) \<Rightarrow> j < length (diagram ! t) \<and> nb i = Some (diagram ! t ! j)"
    proof (cases "lo \<le> i \<and> i \<le> hi")
      case False
      with out show ?thesis by (auto simp: getNeighborhood_apply)
    next
      case True
      then have mem: "i \<in> set [lo..hi]" by simp
      show ?thesis
      proof (cases "int c + i < 0 \<or> int c + i \<ge> int (length (diagram ! t))")
        case off: True
        from inside mem
        have "if int c + i < 0 \<or> int c + i \<ge> int (length (diagram ! t))
              then (\<exists>a. nb i = Some a \<and> length store \<le> a \<and> a < length store')
              else nb i = Some (diagram ! t ! nat (int c + i))"
          by blast
        with off have "\<exists>a. nb i = Some a \<and> length store \<le> a \<and> a < length store'"
          by simp
        then obtain a where a: "nb i = Some a" "length store \<le> a" "a < length store'"
          by blast
        from wf a(2) have "a \<notin> set (concat diagram)"
          unfolding well_formed_def by (meson not_less)
        moreover from a m have "store' ! a = {}" by (simp add: nth_append)
        ultimately show ?thesis
          using True off a len by (simp add: getNeighborhood_apply)
      next
        case inr: False
        from inside mem
        have "if int c + i < 0 \<or> int c + i \<ge> int (length (diagram ! t))
              then (\<exists>a. nb i = Some a \<and> length store \<le> a \<and> a < length store')
              else nb i = Some (diagram ! t ! nat (int c + i))"
          by blast
        with inr have "nb i = Some (diagram ! t ! nat (int c + i))" by simp
        with True inr len show ?thesis
          by (auto simp: getNeighborhood_apply nat_less_iff)
      qed
    qed
  qed
qed

lemma cell_step_sim:
  assumes wf: "well_formed N store diagram" and t: "t < length diagram"
  shows "case cell_step_store A N t c diagram store of
           Inl e \<Rightarrow> cell_step A N t c (structure_of store diagram) = Inl e
         | Inr store' \<Rightarrow>
             cell_step A N t c (structure_of store diagram) = Inr (structure_of store' diagram)
             \<and> length store \<le> length store'"
proof -
  obtain store1 nb
    where g: "getNeighborhood_store (diagram ! t) c (minNeighbor A) (maxNeighbor A) store
                = (store1, nb)"
    by (cases "getNeighborhood_store (diagram ! t) c (minNeighbor A) (maxNeighbor A) store")
  note n = getNeighborhood_store_sim[OF wf t g]
  have wf1: "well_formed N store1 diagram"
    using wf n(1) by (rule well_formed_stable)
  have s: "cell_step_store A N t c diagram store =
             for_rules_store N t c diagram nb (rules A) store1"
    by (simp add: cell_step_store_def g)
  have p: "cell_step A N t c (structure_of store diagram) =
             for_rules N t c (getNeighborhood (structure_of store1 diagram ! t) c
                                (minNeighbor A) (maxNeighbor A))
               (rules A) (structure_of store1 diagram)"
    by (simp add: cell_step_def n(2))
  from n(3) have refs: "same_refs diagram t store1 nb
                         (getNeighborhood (structure_of store1 diagram ! t) c
                            (minNeighbor A) (maxNeighbor A))"
    by (simp add: n(2))
  from for_rules_sim[OF wf1 t refs, of c "rules A"] n(1) show ?thesis
    unfolding s p by (auto simp: stable_def split: sum.splits)
qed

lemma for_cells_sim:
  "well_formed N store diagram \<Longrightarrow> t < length diagram \<Longrightarrow>
     (case for_cells_store A N t diagram cs store of
        Inl e \<Rightarrow> for_cells A N t cs (structure_of store diagram) = Inl e
      | Inr store' \<Rightarrow>
          for_cells A N t cs (structure_of store diagram) = Inr (structure_of store' diagram)
          \<and> length store \<le> length store')"
proof (induction cs arbitrary: store)
  case Nil
  show ?case by simp
next
  case (Cons c cs)
  note one = cell_step_sim[OF Cons.prems, of A c]
  show ?case
  proof (cases "cell_step_store A N t c diagram store")
    case (Inl e)
    with one show ?thesis by simp
  next
    case (Inr store1)
    with one have p: "cell_step A N t c (structure_of store diagram) =
                        Inr (structure_of store1 diagram)"
      and le: "length store \<le> length store1"
      by simp_all
    have wf1: "well_formed N store1 diagram"
      using Cons.prems(1) le by (rule well_formed_stable)
    from Cons.IH[OF wf1 Cons.prems(2)] Inr p le show ?thesis
      by (auto split: sum.splits)
  qed
qed

lemma for_steps_sim:
  "well_formed N store diagram \<Longrightarrow> \<forall>t \<in> set ts. t < length diagram \<Longrightarrow>
     (case for_steps_store A N diagram ts store of
        Inl e \<Rightarrow> for_steps A N ts (structure_of store diagram) = Inl e
      | Inr store' \<Rightarrow>
          for_steps A N ts (structure_of store diagram) = Inr (structure_of store' diagram)
          \<and> length store \<le> length store')"
proof (induction ts arbitrary: store)
  case Nil
  show ?case by simp
next
  case (Cons t ts)
  from Cons.prems(2) have t: "t < length diagram" and rest: "\<forall>t \<in> set ts. t < length diagram"
    by simp_all
  note one = for_cells_sim[OF Cons.prems(1) t, of A "[0..<N]"]
  show ?case
  proof (cases "for_cells_store A N t diagram [0..<N] store")
    case (Inl e)
    with one show ?thesis by simp
  next
    case (Inr store1)
    with one have p: "for_cells A N t [0..<N] (structure_of store diagram) =
                        Inr (structure_of store1 diagram)"
      and le: "length store \<le> length store1"
      by simp_all
    have wf1: "well_formed N store1 diagram"
      using Cons.prems(1) le by (rule well_formed_stable)
    from Cons.IH[OF wf1 rest] Inr p le show ?thesis
      by (auto split: sum.splits)
  qed
qed

lemma new_cells_eq:
  "new_cells n acc store = (store @ replicate n {}, acc @ [length store..<length store + n])"
proof (induction n arbitrary: acc store)
  case 0
  show ?case by simp
next
  case (Suc n)
  have "[length store..<length store + Suc n] = length store # [Suc (length store)..<Suc (length store) + n]"
    by (simp add: upt_conv_Cons)
  then show ?case
    by (simp add: new_Set_def Suc.IH replicate_app_Cons_same del: upt_Suc)
qed

lemma push_Configurations_sim:
  "well_formed N store diagram \<Longrightarrow> push_Configurations N n diagram store = (store', diagram') \<Longrightarrow>
     well_formed N store' diagram'
     \<and> structure_of store' diagram' = structure_of store diagram @ replicate n (Configuration N)
     \<and> length diagram' = length diagram + n"
proof (induction n arbitrary: diagram store)
  case 0
  then show ?case by simp
next
  case (Suc n)
  define store1 where "store1 = store @ replicate N {}"
  define config where "config = [length store..<length store + N]"
  from Suc.prems(2)
  have run: "push_Configurations N n (diagram @ [config]) store1 = (store', diagram')"
    by (simp add: Configuration_store_def new_cells_eq store1_def config_def)
  from Suc.prems(1) have old: "\<forall>a \<in> set (concat diagram). a < length store"
    by (simp add: well_formed_def)
  have below: "a < length store" if "a \<in> set (concat diagram)" for a
    using old that by blast
  have d: "distinct (concat (diagram @ [config]))"
  proof -
    have "set (concat diagram) \<inter> set config = {}"
      using below by (fastforce simp: config_def)
    with Suc.prems(1) show ?thesis
      by (simp add: well_formed_def config_def)
  qed
  have r: "\<forall>c \<in> set (diagram @ [config]). length c = N"
    using Suc.prems(1) by (simp add: well_formed_def config_def)
  have b: "\<forall>a \<in> set (concat (diagram @ [config])). a < length store1"
  proof
    fix a
    assume "a \<in> set (concat (diagram @ [config]))"
    then consider "a \<in> set (concat diagram)" | "a \<in> set config" by auto
    then show "a < length store1"
    proof cases
      case 1
      from below[OF 1] show ?thesis by (simp add: store1_def)
    next
      case 2
      then show ?thesis by (simp add: store1_def config_def)
    qed
  qed
  from d r b have wf1: "well_formed N store1 (diagram @ [config])"
    unfolding well_formed_def by blast
  have "map (\<lambda>a. store1 ! a) config = replicate N {}"
    unfolding store1_def config_def
    by (rule nth_equalityI) (simp_all add: nth_append)
  then have s1: "structure_of store1 (diagram @ [config]) =
                   structure_of store diagram @ [Configuration N]"
    using structure_of_extend[OF Suc.prems(1), of "replicate N {}"]
    by (simp add: structure_of_def store1_def Configuration_def)
  from Suc.IH[OF wf1 run] show ?case
    by (simp add: s1 replicate_app_Cons_same)
qed

lemma makeDiagram_sim:
  assumes "distinct initial" and "\<forall>a \<in> set initial. a < length store"
  shows "returned (makeDiagram_store A initial nbSteps store) =
           makeDiagram A \<lparr>cells = map (\<lambda>a. store ! a) initial\<rparr> nbSteps"
proof -
  define N where "N = length initial"
  have wf: "well_formed N store [initial]"
    using assms by (simp add: well_formed_def N_def)
  obtain store1 diagram
    where push: "push_Configurations N nbSteps [initial] store = (store1, diagram)"
    by (cases "push_Configurations N nbSteps [initial] store")
  from push_Configurations_sim[OF wf push]
  have wf1: "well_formed N store1 diagram"
    and s1: "structure_of store1 diagram =
               \<lparr>cells = map (\<lambda>a. store ! a) initial\<rparr> # replicate nbSteps (Configuration N)"
    and len: "length diagram = Suc nbSteps"
    by (simp_all add: structure_of_def)
  have ts: "\<forall>t \<in> set [0..<nbSteps]. t < length diagram" using len by simp
  from for_steps_sim[OF wf1 ts, of A] show ?thesis
    by (auto simp: returned_def makeDiagram_store_def makeDiagram_def getSize_def Let_def
                   N_def[symmetric] push s1 split: sum.splits)
qed

subsection \<open>Determinism\<close>

text \<open>
  C9, as the code has it. Take two calls of \<^verbatim>\<open>makeDiagram\<close>, each in its own store, on
  automata with the same rules in the same order and the same \<open>minNeighbor\<close> and
  \<open>maxNeighbor\<close>, for the same number of steps, on initial configurations that hold the
  same signals cell by cell, and let the cells of each initial configuration be distinct
  Set objects of its store. Then the two calls raise the same exception or return diagrams
  of the same structure (the same length, widths and signals in every cell at every step),
  whatever the addresses of the objects and whatever else the stores hold; and this result
  is the one \<open>makeDiagram\<close> computes on the signal sets alone.
\<close>

theorem makeDiagram_deterministic:
  assumes "rules A = rules B" "minNeighbor A = minNeighbor B" "maxNeighbor A = maxNeighbor B"
    and "distinct cellsA" "\<forall>a \<in> set cellsA. a < length storeA"
    and "distinct cellsB" "\<forall>a \<in> set cellsB. a < length storeB"
    and "map (\<lambda>a. storeA ! a) cellsA = map (\<lambda>a. storeB ! a) cellsB"
  shows "returned (makeDiagram_store A cellsA nbSteps storeA) =
           returned (makeDiagram_store B cellsB nbSteps storeB)
         \<and> returned (makeDiagram_store A cellsA nbSteps storeA) =
             makeDiagram A \<lparr>cells = map (\<lambda>a. storeA ! a) cellsA\<rparr> nbSteps"
proof -
  have a: "returned (makeDiagram_store A cellsA nbSteps storeA) =
             makeDiagram A \<lparr>cells = map (\<lambda>a. storeA ! a) cellsA\<rparr> nbSteps"
    using assms(4,5) by (rule makeDiagram_sim)
  have b: "returned (makeDiagram_store B cellsB nbSteps storeB) =
             makeDiagram B \<lparr>cells = map (\<lambda>a. storeB ! a) cellsB\<rparr> nbSteps"
    using assms(6,7) by (rule makeDiagram_sim)
  have "makeDiagram A \<lparr>cells = map (\<lambda>a. storeA ! a) cellsA\<rparr> nbSteps =
        makeDiagram B \<lparr>cells = map (\<lambda>a. storeB ! a) cellsB\<rparr> nbSteps"
    using assms(1,2,3,8) makeDiagram_fields[of A B] by simp
  with a b show ?thesis by simp
qed


theorem makeDiagram_deterministic_witness:
  "returned (makeDiagram_store
       \<lparr>rules = [\<lparr>condition = Literal ''B'' 0 0,
                  outputs = [\<lparr>neighbor = 0, signal = ''C'', futureStep = 0\<rparr>]\<rparr>,
                \<lparr>condition = Literal ''A'' 0 0,
                  outputs = [\<lparr>neighbor = 0, signal = ''B'', futureStep = 0\<rparr>]\<rparr>],
        minNeighbor = 0, maxNeighbor = 0, maxFutureDepth = 1\<rparr>
       [0, 1] 1 [{''A''}, {''A''}])
   = returned (makeDiagram_store
       \<lparr>rules = [\<lparr>condition = Literal ''B'' 0 0,
                  outputs = [\<lparr>neighbor = 0, signal = ''C'', futureStep = 0\<rparr>]\<rparr>,
                \<lparr>condition = Literal ''A'' 0 0,
                  outputs = [\<lparr>neighbor = 0, signal = ''B'', futureStep = 0\<rparr>]\<rparr>],
        minNeighbor = 0, maxNeighbor = 0, maxFutureDepth = 5\<rparr>
       [2, 0] 1 [{''A''}, {''X''}, {''A''}])
   \<and> returned (makeDiagram_store
       \<lparr>rules = [\<lparr>condition = Literal ''B'' 0 0,
                  outputs = [\<lparr>neighbor = 0, signal = ''C'', futureStep = 0\<rparr>]\<rparr>,
                \<lparr>condition = Literal ''A'' 0 0,
                  outputs = [\<lparr>neighbor = 0, signal = ''B'', futureStep = 0\<rparr>]\<rparr>],
        minNeighbor = 0, maxNeighbor = 0, maxFutureDepth = 1\<rparr>
       [0, 1] 1 [{''A''}, {''A''}])
     = Inr [\<lparr>cells = [{''A'', ''B''}, {''A'', ''B''}]\<rparr>, \<lparr>cells = [{}, {}]\<rparr>]"
proof -
  let ?rs = "[\<lparr>condition = Literal ''B'' 0 0,
                outputs = [\<lparr>neighbor = 0, signal = ''C'', futureStep = 0\<rparr>]\<rparr>,
              \<lparr>condition = Literal ''A'' 0 0,
                outputs = [\<lparr>neighbor = 0, signal = ''B'', futureStep = 0\<rparr>]\<rparr>]"
  let ?A = "\<lparr>rules = ?rs, minNeighbor = 0, maxNeighbor = 0, maxFutureDepth = 1\<rparr>"
  let ?B = "\<lparr>rules = ?rs, minNeighbor = 0, maxNeighbor = 0, maxFutureDepth = 5\<rparr>"
  have 1: "rules ?A = rules ?B" "minNeighbor ?A = minNeighbor ?B" "maxNeighbor ?A = maxNeighbor ?B"
    by simp_all
  have 2: "distinct [0::nat, 1]" "\<forall>a \<in> set [0::nat, 1]. a < length [{''A''}, {''A''}]"
    by simp_all
  have 3: "distinct [2::nat, 0]" "\<forall>a \<in> set [2::nat, 0]. a < length [{''A''}, {''X''}, {''A''}]"
    by simp_all
  have 4: "map (\<lambda>a. [{''A''}, {''A''}] ! a) [0, 1] =
           map (\<lambda>a. [{''A''}, {''X''}, {''A''}] ! a) [2, 0]"
    by simp
  note th = makeDiagram_deterministic[OF 1 2 3 4, of 1]
  have run: "makeDiagram ?A \<lparr>cells = map (\<lambda>a. [{''A''}, {''A''}] ! a) [0, 1]\<rparr> 1
             = Inr [\<lparr>cells = [{''A'', ''B''}, {''A'', ''B''}]\<rparr>, \<lparr>cells = [{}, {}]\<rparr>]"
    by code_simp
  from th[THEN conjunct2] run
  have r: "returned (makeDiagram_store ?A [0, 1] 1 [{''A''}, {''A''}])
           = Inr [\<lparr>cells = [{''A'', ''B''}, {''A'', ''B''}]\<rparr>, \<lparr>cells = [{}, {}]\<rparr>]"
    by (rule trans)
  from th[THEN conjunct1] r show ?thesis by (rule conjI)
qed


text \<open>
  The claim as the spec has it, for any two initial configurations of the same structure,
  fails when two cells of a configuration are the same Set object. With the rules
  \<^verbatim>\<open>B: 0/0.C\<close> and \<^verbatim>\<open>A: 0/0.B\<close> in this order, two cells both holding \<open>A\<close> end with \<open>A\<close> and
  \<open>B\<close> when they are two objects, and with \<open>A\<close>, \<open>B\<close> and \<open>C\<close> when they are one: the second
  cell then starts from what the first one wrote.
\<close>

theorem shared_set_counterexample:
  "map (\<lambda>a. [{''A''}] ! a) [0, 0] = map (\<lambda>a. [{''A''}, {''A''}] ! a) [0, 1]
   \<and> returned (makeDiagram_store
       \<lparr>rules = [\<lparr>condition = Literal ''B'' 0 0,
                  outputs = [\<lparr>neighbor = 0, signal = ''C'', futureStep = 0\<rparr>]\<rparr>,
                \<lparr>condition = Literal ''A'' 0 0,
                  outputs = [\<lparr>neighbor = 0, signal = ''B'', futureStep = 0\<rparr>]\<rparr>],
        minNeighbor = 0, maxNeighbor = 0, maxFutureDepth = 1\<rparr>
       [0, 0] 1 [{''A''}])
     = Inr [\<lparr>cells = [{''A'', ''B'', ''C''}, {''A'', ''B'', ''C''}]\<rparr>, \<lparr>cells = [{}, {}]\<rparr>]
   \<and> returned (makeDiagram_store
       \<lparr>rules = [\<lparr>condition = Literal ''B'' 0 0,
                  outputs = [\<lparr>neighbor = 0, signal = ''C'', futureStep = 0\<rparr>]\<rparr>,
                \<lparr>condition = Literal ''A'' 0 0,
                  outputs = [\<lparr>neighbor = 0, signal = ''B'', futureStep = 0\<rparr>]\<rparr>],
        minNeighbor = 0, maxNeighbor = 0, maxFutureDepth = 1\<rparr>
       [0, 1] 1 [{''A''}, {''A''}])
     = Inr [\<lparr>cells = [{''A'', ''B''}, {''A'', ''B''}]\<rparr>, \<lparr>cells = [{}, {}]\<rparr>]
   \<and> [\<lparr>cells = [{''A'', ''B'', ''C''}, {''A'', ''B'', ''C''}]\<rparr>, \<lparr>cells = [{}, {}]\<rparr>]
       \<noteq> [\<lparr>cells = [{''A'', ''B''}, {''A'', ''B''}]\<rparr>, \<lparr>cells = [{}, {}]\<rparr>]
   \<and> new_Automaton (''B: 0/0.C'' @ [CHR 0x0A] @ ''A: 0/0.B'') =
       Inr \<lparr>rules = [\<lparr>condition = Literal ''B'' 0 0,
                  outputs = [\<lparr>neighbor = 0, signal = ''C'', futureStep = 0\<rparr>]\<rparr>,
                \<lparr>condition = Literal ''A'' 0 0,
                  outputs = [\<lparr>neighbor = 0, signal = ''B'', futureStep = 0\<rparr>]\<rparr>],
        minNeighbor = 0, maxNeighbor = 0, maxFutureDepth = 1\<rparr>"
  by code_simp

subsection \<open>Writes at the same step\<close>

lemma for_cells_append:
  "for_cells A N t (xs @ ys) d =
     (case for_cells A N t xs d of Inl e \<Rightarrow> Inl e | Inr d1 \<Rightarrow> for_cells A N t ys d1)"
  by (induction xs arbitrary: d) (simp_all split: sum.splits)

lemma for_rules_append:
  "for_rules N t c nb (xs @ ys) d =
     (case for_rules N t c nb xs d of Inl e \<Rightarrow> Inl e | Inr d1 \<Rightarrow> for_rules N t c nb ys d1)"
  by (induction xs arbitrary: d) (simp_all split: sum.splits)

lemma upt_split: "c < n \<Longrightarrow> [0..<n] = [0..<c] @ c # [Suc c..<n]"
proof -
  assume "c < n"
  then have "[0..<n] = [0..<c] @ [c..<n]"
    using upt_add_eq_append[of 0 c "n - c"] by simp
  with \<open>c < n\<close> show ?thesis by (simp add: upt_conv_Cons)
qed

lemma for_cells_through:
  assumes "for_cells A N t [0..<n] d = Inr d2" "c < n"
  shows "\<exists>d0 d1. for_cells A N t [0..<c] d = Inr d0 \<and> cell_step A N t c d0 = Inr d1
           \<and> for_cells A N t [Suc c..<n] d1 = Inr d2"
  using assms unfolding upt_split[OF assms(2)] for_cells_append
  by (auto split: sum.splits)

lemma for_rules_through:
  assumes "for_rules N t c nb (xs @ ys) d = Inr d2"
  shows "\<exists>d1. for_rules N t c nb xs d = Inr d1 \<and> for_rules N t c nb ys d1 = Inr d2"
  using assms unfolding for_rules_append by (auto split: sum.splits)

lemma applyOutput_writes:
  assumes "applyOutput N t c d out = Inr d'" "neighbor out = 0" "futureStep out = 0"
    and "c < N" "t < length d" "length (cells (d ! t)) = N"
  shows "signal out \<in> cells (d' ! t) ! c"
  using assms unfolding applyOutput_def Let_def by (auto split: if_splits)

lemma forEach_output_writes:
  assumes "forEach_output N t c outs d = Inr d'" "out \<in> set outs"
    and "neighbor out = 0" "futureStep out = 0" "c < N" "t < length d" "all_width N d"
  shows "signal out \<in> cells (d' ! t) ! c"
  using assms(1,2,6,7)
proof (induction outs arbitrary: d)
  case Nil
  then show ?case by simp
next
  case (Cons o1 outs)
  from Cons.prems(1) obtain d1 where d1: "applyOutput N t c d o1 = Inr d1"
    and rest: "forEach_output N t c outs d1 = Inr d'"
    by (auto split: sum.splits)
  have g1: "grows d d1" using applyOutput_grows[OF d1] .
  have w1: "all_width N d1" using all_width_grows[OF Cons.prems(4) g1] .
  have t1: "t < length d1" using grows_length[OF g1] Cons.prems(3) by simp
  show ?case
  proof (cases "out = o1")
    case True
    have "signal out \<in> cells (d1 ! t) ! c"
      using applyOutput_writes[OF d1[folded True] assms(3,4,5) Cons.prems(3)
              all_width_nth[OF Cons.prems(4,3)]] .
    moreover have "c < length (cells (d1 ! t))" using all_width_nth[OF w1 t1] assms(5) by simp
    ultimately show ?thesis using grows_mem[OF forEach_output_grows[OF rest] t1] by blast
  next
    case False
    with Cons.prems(2) have "out \<in> set outs" by simp
    from Cons.IH[OF rest this t1 w1] show ?thesis .
  qed
qed

text \<open>The rule that fires during cell \<open>c\<close>, seen from a later state of the same step.\<close>

lemma fired_write_stays:
  assumes w: "all_width N d" and t: "t < length d" and c: "c < N"
    and rs: "rules A = before @ rule # after"
    and out: "out \<in> set (outputs rule)" "neighbor out = 0" "futureStep out = 0"
    and d0: "for_cells A N t [0..<c] d = Inr d0"
    and d1: "for_rules N t c (getNeighborhood (d0 ! t) c (minNeighbor A) (maxNeighbor A)) before d0 = Inr d1"
    and fires: "eval (condition rule)
                  (contents (d1 ! t) (getNeighborhood (d0 ! t) c (minNeighbor A) (maxNeighbor A)))
                = Inr True"
    and later: "for_cells A N t [0..<n] d = Inr d2" "c < n"
  shows "signal out \<in> cells (d2 ! t) ! c \<and> length (cells (d2 ! t)) = N"
proof -
  let ?nb = "getNeighborhood (d0 ! t) c (minNeighbor A) (maxNeighbor A)"
  from for_cells_through[OF later] d0
  obtain dY where dY: "cell_step A N t c d0 = Inr dY"
    and rest: "for_cells A N t [Suc c..<n] dY = Inr d2"
    by auto
  from dY have "for_rules N t c ?nb (before @ rule # after) d0 = Inr dY"
    by (simp add: cell_step_def rs)
  from for_rules_through[OF this] d1
  have "for_rules N t c ?nb (rule # after) d1 = Inr dY" by auto
  with fires obtain X where X: "forEach_output N t c (outputs rule) d1 = Inr X"
    and after: "for_rules N t c ?nb after X = Inr dY"
    by (auto split: sum.splits)
  have g0: "grows d d0" using for_cells_grows[OF d0] .
  have g1: "grows d0 d1" using for_rules_grows[OF d1] .
  have g01: "grows d d1" using grows_trans[OF g0 g1] .
  have w1: "all_width N d1" using all_width_grows[OF w g01] .
  have t1: "t < length d1" using grows_length[OF g01] t by simp
  have inX: "signal out \<in> cells (X ! t) ! c"
    using forEach_output_writes[OF X out c t1 w1] .
  have gX: "grows d1 X" using forEach_output_grows[OF X] .
  have wX: "all_width N X" using all_width_grows[OF w1 gX] .
  have tX: "t < length X" using grows_length[OF gX] t1 by simp
  have gX2: "grows X d2"
    using grows_trans[OF for_rules_grows[OF after] for_cells_grows[OF rest]] .
  have cX: "c < length (cells (X ! t))" using all_width_nth[OF wX tX] c by simp
  have "signal out \<in> cells (d2 ! t) ! c" using grows_mem[OF gX2 tX cX inX] .
  moreover have "length (cells (d2 ! t)) = N"
    using all_width_nth[OF all_width_grows[OF wX gX2]] grows_length[OF gX2] tX by simp
  ultimately show ?thesis by simp
qed

lemma earlier_state_below:
  assumes w: "all_width N d" and t: "t < length d" and c: "c < N"
    and d0: "for_cells A N t [0..<c] d = Inr d0"
    and early: "c'' < c" "rules A = rs @ rs'" "for_cells A N t [0..<c''] d = Inr d3"
       "for_rules N t c'' (getNeighborhood (d3 ! t) c'' (minNeighbor A) (maxNeighbor A)) rs d3 = Inr d4"
  shows "cells (d4 ! t) ! c \<subseteq> cells (d0 ! t) ! c"
proof -
  let ?nb = "getNeighborhood (d3 ! t) c'' (minNeighbor A) (maxNeighbor A)"
  from for_cells_through[OF d0 early(1)] early(3)
  obtain dZ where dZ: "cell_step A N t c'' d3 = Inr dZ"
    and rest: "for_cells A N t [Suc c''..<c] dZ = Inr d0"
    by auto
  from dZ have "for_rules N t c'' ?nb (rs @ rs') d3 = Inr dZ"
    by (simp add: cell_step_def early(2))
  from for_rules_through[OF this] early(4)
  have r': "for_rules N t c'' ?nb rs' d4 = Inr dZ" by auto
  have g: "grows d4 d0" using grows_trans[OF for_rules_grows[OF r'] for_cells_grows[OF rest]] .
  have g4: "grows d d4" using grows_trans[OF for_cells_grows[OF early(3)] for_rules_grows[OF early(4)]] .
  have t4: "t < length d4" using grows_length[OF g4] t by simp
  have "length (cells (d4 ! t)) = N" using all_width_nth[OF all_width_grows[OF w g4] t4] .
  with c have c4: "c < length (cells (d4 ! t))" by simp
  from g t4 c4 show ?thesis unfolding grows_def by blast
qed

text \<open>
  C1. At step \<open>t\<close>, let the cells before \<open>c\<close> have been processed (state \<open>d0\<close>), then the
  rules before \<open>rule\<close> on cell \<open>c\<close> (state \<open>d1\<close>), and let \<open>rule\<close> fire there, with an output
  of \<open>futureStep = 0\<close> and \<open>neighbor = 0\<close>. Then the signal is in cell \<open>c\<close> of \<^verbatim>\<open>diagram[t]\<close> itself
  when the step is over; every cell \<open>c'\<close> after \<open>c\<close> whose window reaches back to \<open>c\<close> finds it
  at that offset in the neighbourhood it is given; and no state in which a cell before \<open>c\<close>
  evaluated a rule holds it in cell \<open>c\<close>, unless cell \<open>c\<close> held it before the rule fired.
  Scenario A: the rule text \<^verbatim>\<open>A: 0/0.B\<close> (the same automaton in both versions) on three cells
  with \<open>A\<close> in cell 0 gives, after one step, both \<open>A\<close> and \<open>B\<close> in cell 0 of \<^verbatim>\<open>diagram[0]\<close>.
\<close>

theorem same_step_write:
  assumes "\<forall>config \<in> set diagram. length (cells config) = nbCells"
    and "t < length diagram" and "c < nbCells"
    and "rules this = before @ rule # after"
    and "output \<in> set (outputs rule)" and "neighbor output = 0" and "futureStep output = 0"
    and "for_cells this nbCells t [0..<c] diagram = Inr d0"
    and "for_rules nbCells t c (getNeighborhood (d0 ! t) c (minNeighbor this) (maxNeighbor this))
           before d0 = Inr d1"
    and "eval (condition rule)
           (contents (d1 ! t) (getNeighborhood (d0 ! t) c (minNeighbor this) (maxNeighbor this)))
         = Inr True"
  shows
    "(\<forall>d'. for_cells this nbCells t [0..<nbCells] diagram = Inr d' \<longrightarrow>
        signal output \<in> cells (d' ! t) ! c)
     \<and> (\<forall>c' d2. c < c' \<and> c' < nbCells
           \<and> minNeighbor this \<le> int c - int c' \<and> int c - int c' \<le> maxNeighbor this
           \<and> for_cells this nbCells t [0..<c'] diagram = Inr d2 \<longrightarrow>
         (\<exists>cell. contents (d2 ! t)
                    (getNeighborhood (d2 ! t) c' (minNeighbor this) (maxNeighbor this))
                    (int c - int c') = Some cell
                 \<and> signal output \<in> cell))
     \<and> (\<forall>c'' rs rs' d3 d4. c'' < c \<and> rules this = rs @ rs'
           \<and> for_cells this nbCells t [0..<c''] diagram = Inr d3
           \<and> for_rules nbCells t c''
                (getNeighborhood (d3 ! t) c'' (minNeighbor this) (maxNeighbor this)) rs d3 = Inr d4
           \<and> signal output \<notin> cells (d1 ! t) ! c \<longrightarrow>
         signal output \<notin> cells (d4 ! t) ! c)
     \<and> new_Automaton ''A: 0/0.B'' =
         Inr \<lparr>rules = [\<lparr>condition = Literal ''A'' 0 0,
                         outputs = [\<lparr>neighbor = 0, signal = ''B'', futureStep = 0\<rparr>]\<rparr>],
              minNeighbor = 0, maxNeighbor = 0, maxFutureDepth = 1\<rparr>
     \<and> new_Automaton_part000 maxLength ''A: 0/0.B'' =
         Inr \<lparr>rules = [\<lparr>condition = Literal ''A'' 0 0,
                         outputs = [\<lparr>neighbor = 0, signal = ''B'', futureStep = 0\<rparr>]\<rparr>],
              minNeighbor = 0, maxNeighbor = 0, maxFutureDepth = 1\<rparr>
     \<and> makeDiagram
          \<lparr>rules = [\<lparr>condition = Literal ''A'' 0 0,
                     outputs = [\<lparr>neighbor = 0, signal = ''B'', futureStep = 0\<rparr>]\<rparr>],
           minNeighbor = 0, maxNeighbor = 0, maxFutureDepth = 1\<rparr>
          \<lparr>cells = [{''A''}, {}, {}]\<rparr> 1
         = Inr [\<lparr>cells = [{''A'', ''B''}, {}, {}]\<rparr>, \<lparr>cells = [{}, {}, {}]\<rparr>]"
proof -
  have w: "all_width nbCells diagram" using assms(1) by (simp add: all_width_iff)
  note stays = fired_write_stays[OF w assms(2,3,4,5,6,7,8,9,10)]
  have 1: "\<forall>d'. for_cells this nbCells t [0..<nbCells] diagram = Inr d' \<longrightarrow>
        signal output \<in> cells (d' ! t) ! c"
    using stays[OF _ assms(3)] by blast
  have 2: "\<forall>c' d2. c < c' \<and> c' < nbCells
           \<and> minNeighbor this \<le> int c - int c' \<and> int c - int c' \<le> maxNeighbor this
           \<and> for_cells this nbCells t [0..<c'] diagram = Inr d2 \<longrightarrow>
         (\<exists>cell. contents (d2 ! t)
                    (getNeighborhood (d2 ! t) c' (minNeighbor this) (maxNeighbor this))
                    (int c - int c') = Some cell
                 \<and> signal output \<in> cell)"
  proof (intro allI impI)
    fix c' d2
    assume a: "c < c' \<and> c' < nbCells
           \<and> minNeighbor this \<le> int c - int c' \<and> int c - int c' \<le> maxNeighbor this
           \<and> for_cells this nbCells t [0..<c'] diagram = Inr d2"
    then have s: "signal output \<in> cells (d2 ! t) ! c \<and> length (cells (d2 ! t)) = nbCells"
      using stays[of c' d2] by blast
    have "contents (d2 ! t) (getNeighborhood (d2 ! t) c' (minNeighbor this) (maxNeighbor this))
            (int c - int c') = Some (cells (d2 ! t) ! c)"
      using a s assms(3) by (simp add: contents_getNeighborhood)
    with s show "\<exists>cell. contents (d2 ! t)
                    (getNeighborhood (d2 ! t) c' (minNeighbor this) (maxNeighbor this))
                    (int c - int c') = Some cell
                 \<and> signal output \<in> cell"
      by blast
  qed
  have 3: "\<forall>c'' rs rs' d3 d4. c'' < c \<and> rules this = rs @ rs'
           \<and> for_cells this nbCells t [0..<c''] diagram = Inr d3
           \<and> for_rules nbCells t c''
                (getNeighborhood (d3 ! t) c'' (minNeighbor this) (maxNeighbor this)) rs d3 = Inr d4
           \<and> signal output \<notin> cells (d1 ! t) ! c \<longrightarrow>
         signal output \<notin> cells (d4 ! t) ! c"
  proof (intro allI impI)
    fix c'' rs rs' d3 d4
    assume a: "c'' < c \<and> rules this = rs @ rs'
           \<and> for_cells this nbCells t [0..<c''] diagram = Inr d3
           \<and> for_rules nbCells t c''
                (getNeighborhood (d3 ! t) c'' (minNeighbor this) (maxNeighbor this)) rs d3 = Inr d4
           \<and> signal output \<notin> cells (d1 ! t) ! c"
    then have b: "cells (d4 ! t) ! c \<subseteq> cells (d0 ! t) ! c"
      using earlier_state_below[OF w assms(2,3,8), of c'' rs rs' d3 d4] by blast
    have g0: "grows diagram d0" using for_cells_grows[OF assms(8)] .
    have t0: "t < length d0" using grows_length[OF g0] assms(2) by simp
    have "length (cells (d0 ! t)) = nbCells" using all_width_nth[OF all_width_grows[OF w g0] t0] .
    with assms(3) have "cells (d0 ! t) ! c \<subseteq> cells (d1 ! t) ! c"
      using for_rules_grows[OF assms(9)] t0 unfolding grows_def by simp
    with a b show "signal output \<notin> cells (d4 ! t) ! c" by blast
  qed
  have 4: "new_Automaton ''A: 0/0.B'' =
         Inr \<lparr>rules = [\<lparr>condition = Literal ''A'' 0 0,
                         outputs = [\<lparr>neighbor = 0, signal = ''B'', futureStep = 0\<rparr>]\<rparr>],
              minNeighbor = 0, maxNeighbor = 0, maxFutureDepth = 1\<rparr>"
    by code_simp
  have 5: "new_Automaton_part000 maxLength ''A: 0/0.B'' =
         Inr \<lparr>rules = [\<lparr>condition = Literal ''A'' 0 0,
                         outputs = [\<lparr>neighbor = 0, signal = ''B'', futureStep = 0\<rparr>]\<rparr>],
              minNeighbor = 0, maxNeighbor = 0, maxFutureDepth = 1\<rparr>"
    by code_simp
  have 6: "makeDiagram
          \<lparr>rules = [\<lparr>condition = Literal ''A'' 0 0,
                     outputs = [\<lparr>neighbor = 0, signal = ''B'', futureStep = 0\<rparr>]\<rparr>],
           minNeighbor = 0, maxNeighbor = 0, maxFutureDepth = 1\<rparr>
          \<lparr>cells = [{''A''}, {}, {}]\<rparr> 1
         = Inr [\<lparr>cells = [{''A'', ''B''}, {}, {}]\<rparr>, \<lparr>cells = [{}, {}, {}]\<rparr>]"
    by code_simp
  from 1 2 3 4 5 6 show ?thesis by blast
qed

text \<open>
  An instance with a window \<open>[-1, 1]\<close> (the fields are set by hand: no rule text gives a
  window other than \<open>[0, 0]\<close>): cell 1 writes \<open>B\<close> into itself; cell 2, processed after,
  sees it on its left and marks \<open>L\<close>; cell 0, processed before, did not see it on its
  right and has no \<open>R\<close>.
\<close>

theorem same_step_write_witness:
  "makeDiagram
     \<lparr>rules = [\<lparr>condition = Literal ''A'' 0 0,
                outputs = [\<lparr>neighbor = 0, signal = ''B'', futureStep = 0\<rparr>]\<rparr>,
              \<lparr>condition = Literal ''B'' (- 1) 0,
                outputs = [\<lparr>neighbor = 0, signal = ''L'', futureStep = 0\<rparr>]\<rparr>,
              \<lparr>condition = Literal ''B'' 1 0,
                outputs = [\<lparr>neighbor = 0, signal = ''R'', futureStep = 0\<rparr>]\<rparr>],
      minNeighbor = - 1, maxNeighbor = 1, maxFutureDepth = 1\<rparr>
     \<lparr>cells = [{}, {''A''}, {}]\<rparr> 1
    = Inr [\<lparr>cells = [{}, {''A'', ''B''}, {''L''}]\<rparr>, \<lparr>cells = [{}, {}, {}]\<rparr>]
   \<and> ''B'' \<in> cells ([\<lparr>cells = [{}, {''A'', ''B''}, {''L''}]\<rparr>, \<lparr>cells = [{}, {}, {}]\<rparr>] ! 0) ! 1
   \<and> (\<exists>cell. contents \<lparr>cells = [{}, {''A'', ''B''}, {}]\<rparr>
                 (getNeighborhood \<lparr>cells = [{}, {''A'', ''B''}, {}]\<rparr> 2 (- 1) 1) (- 1) = Some cell
              \<and> ''B'' \<in> cell)
   \<and> ''B'' \<notin> cells ([\<lparr>cells = [{}, {''A''}, {}]\<rparr>, \<lparr>cells = [{}, {}, {}]\<rparr>] ! 0) ! 1"
proof -
  let ?out = "\<lparr>neighbor = 0, signal = ''B'', futureStep = 0\<rparr>"
  let ?r1 = "\<lparr>condition = Literal ''A'' 0 0, outputs = [?out]\<rparr>"
  let ?r2 = "\<lparr>condition = Literal ''B'' (- 1) 0,
                outputs = [\<lparr>neighbor = 0, signal = ''L'', futureStep = 0\<rparr>]\<rparr>"
  let ?r3 = "\<lparr>condition = Literal ''B'' 1 0,
                outputs = [\<lparr>neighbor = 0, signal = ''R'', futureStep = 0\<rparr>]\<rparr>"
  let ?W = "\<lparr>rules = [?r1, ?r2, ?r3], minNeighbor = - 1, maxNeighbor = 1, maxFutureDepth = 1\<rparr>"
  let ?e = "\<lparr>cells = [{}, {}, {}]\<rparr> :: configuration"
  let ?d = "[\<lparr>cells = [{}, {''A''}, {}]\<rparr>, ?e]"
  let ?d2 = "[\<lparr>cells = [{}, {''A'', ''B''}, {}]\<rparr>, ?e]"
  let ?d' = "[\<lparr>cells = [{}, {''A'', ''B''}, {''L''}]\<rparr>, ?e]"
  have a1: "\<forall>config \<in> set ?d. length (cells config) = 3" by simp
  have a2: "0 < length ?d" by simp
  have a3: "(1::nat) < 3" by simp
  have a4: "rules ?W = [] @ ?r1 # [?r2, ?r3]" by simp
  have a5: "?out \<in> set (outputs ?r1)" by simp
  have a6: "neighbor ?out = 0" by simp
  have a7: "futureStep ?out = 0" by simp
  have a8: "for_cells ?W 3 0 [0..<1] ?d = Inr ?d" by code_simp
  have a9: "for_rules 3 0 1 (getNeighborhood (?d ! 0) 1 (minNeighbor ?W) (maxNeighbor ?W)) [] ?d = Inr ?d"
    by simp
  have a10: "eval (condition ?r1)
               (contents (?d ! 0) (getNeighborhood (?d ! 0) 1 (minNeighbor ?W) (maxNeighbor ?W)))
             = Inr True"
    by (simp add: contents_getNeighborhood)
  note th = same_step_write[OF a1 a2 a3 a4 a5 a6 a7 a8 a9 a10]
  have run: "for_cells ?W 3 0 [0..<3] ?d = Inr ?d'" by code_simp
  have run2: "for_cells ?W 3 0 [0..<2] ?d = Inr ?d2" by code_simp
  have early: "for_rules 3 0 0 (getNeighborhood (?d ! 0) 0 (minNeighbor ?W) (maxNeighbor ?W))
                 [?r1, ?r2, ?r3] ?d = Inr ?d"
    by code_simp
  have absent: "signal ?out \<notin> cells (?d ! 0) ! 1" by simp
  have m: "makeDiagram ?W \<lparr>cells = [{}, {''A''}, {}]\<rparr> 1 = Inr ?d'" by code_simp
  from th[THEN conjunct1, rule_format, OF run]
  have c1: "''B'' \<in> cells (?d' ! 0) ! 1" by simp
  from th[THEN conjunct2, THEN conjunct1, rule_format, of 2 ?d2] run2
  have c2: "\<exists>cell. contents \<lparr>cells = [{}, {''A'', ''B''}, {}]\<rparr>
                 (getNeighborhood \<lparr>cells = [{}, {''A'', ''B''}, {}]\<rparr> 2 (- 1) 1) (- 1) = Some cell
              \<and> ''B'' \<in> cell"
    by simp
  have r: "rules ?W = [?r1, ?r2, ?r3] @ []" by simp
  from th[THEN conjunct2, THEN conjunct2, THEN conjunct1, rule_format, of 0 "[?r1, ?r2, ?r3]" "[]" ?d ?d]
    early absent r
  have c3: "''B'' \<notin> cells (?d ! 0) ! 1" by simp
  from m c1 c2 c3 show ?thesis by blast
qed

subsection \<open>The bounds of the window\<close>

lemma read_line_bounds:
  "read_line pc po (A, stack) line = Inr (A', stack') \<Longrightarrow>
     minNeighbor A' = minNeighbor A \<and> maxNeighbor A' = maxNeighbor A"
  unfolding read_line_def Let_def
  by (auto split: if_splits sum.splits prod.splits)

lemma read_lines_bounds:
  "read_lines pc po state ls = Inr A' \<Longrightarrow>
     minNeighbor A' = minNeighbor (fst state) \<and> maxNeighbor A' = maxNeighbor (fst state)"
proof (induction ls arbitrary: state)
  case Nil
  then show ?case by simp
next
  case (Cons l ls)
  from Cons.prems obtain state' where s: "read_line pc po state l = Inr state'"
    and r: "read_lines pc po state' ls = Inr A'"
    by (auto split: sum.splits)
  from read_line_bounds[of pc po "fst state" "snd state" l "fst state'" "snd state'"] s
  have "minNeighbor (fst state') = minNeighbor (fst state)
        \<and> maxNeighbor (fst state') = maxNeighbor (fst state)"
    by simp
  with Cons.IH[OF r] show ?case by simp
qed

lemma constructor_bounds:
  "constructor pc po rulesString = Inr A \<Longrightarrow> minNeighbor A = 0 \<and> maxNeighbor A = 0"
  unfolding constructor_def by (drule read_lines_bounds) simp

text \<open>
  C2 fails. The constructor sets \<open>minNeighbor\<close> and \<open>maxNeighbor\<close> to 0 and nothing assigns
  them afterwards (\<open>constructor_bounds\<close>), whatever the rules hold. In the second version
  the rule text \<^verbatim>\<open>1.A: B\<close> has a literal at position 1: the maximum the spec words is 1, the
  field is 0, and the first evaluation of the rule raises, the window \<open>[0, 0]\<close> holding no
  offset 1. In src/lib/automata/Automaton.ts the rule text \<^verbatim>\<open>A: -1.B\<close> has an output to the
  neighbour \<open>-1\<close>: the minimum the spec words is \<open>-1\<close>, the field is 0.
\<close>

theorem neighbor_bounds_stay_zero:
  "new_Automaton_part000 maxLength ''1.A: B'' =
     Inr \<lparr>rules = [\<lparr>condition = Literal ''A'' 1 0,
                     outputs = [\<lparr>neighbor = 0, signal = ''B'', futureStep = 1\<rparr>]\<rparr>],
          minNeighbor = 0, maxNeighbor = 0, maxFutureDepth = 1\<rparr>
   \<and> spec_maxNeighbor [\<lparr>condition = Literal ''A'' 1 0,
                         outputs = [\<lparr>neighbor = 0, signal = ''B'', futureStep = 1\<rparr>]\<rparr>] = 1
   \<and> makeDiagram
        \<lparr>rules = [\<lparr>condition = Literal ''A'' 1 0,
                   outputs = [\<lparr>neighbor = 0, signal = ''B'', futureStep = 1\<rparr>]\<rparr>],
         minNeighbor = 0, maxNeighbor = 0, maxFutureDepth = 1\<rparr>
        \<lparr>cells = [{}, {''A''}]\<rparr> 1 = Inl TypeError
   \<and> new_Automaton ''A: -1.B'' =
       Inr \<lparr>rules = [\<lparr>condition = Literal ''A'' 0 0,
                       outputs = [\<lparr>neighbor = - 1, signal = ''B'', futureStep = 1\<rparr>]\<rparr>],
            minNeighbor = 0, maxNeighbor = 0, maxFutureDepth = 1\<rparr>
   \<and> spec_minNeighbor [\<lparr>condition = Literal ''A'' 0 0,
                         outputs = [\<lparr>neighbor = - 1, signal = ''B'', futureStep = 1\<rparr>]\<rparr>] = - 1"
  by code_simp

end
